theory Spec2Isabelle
  imports Complex_Main "HOL-Library.AList" "HOL-Library.Sublist"
begin

section \<open>Strings\<close>

text \<open>
  A JavaScript string is modelled as a \<open>string\<close> whose characters are the code points
  U+0000 to U+00FF. On this range \<open>String.prototype.trim\<close> removes exactly the seven
  characters of \<open>isWs\<close> (which are also what \<open>\s\<close> matches in a regular expression), and
  \<open>toLowerCase\<close> maps A-Z and the upper-case letters U+00C0..U+00DE (without U+00D7) to the
  character 32 places later.
\<close>

definition isWs :: "char \<Rightarrow> bool" where
  "isWs c = (c \<in> set [CHR 0x09, CHR 0x0A, CHR 0x0B, CHR 0x0C, CHR 0x0D, CHR 0x20, CHR 0xA0])"

definition trim :: "string \<Rightarrow> string" where
  "trim s = rev (dropWhile isWs (rev (dropWhile isWs s)))"

definition lowerChar :: "char \<Rightarrow> char" where
  "lowerChar c =
     (let n = (of_char c :: nat)
      in if (65 \<le> n \<and> n \<le> 90) \<or> (192 \<le> n \<and> n \<le> 222 \<and> n \<noteq> 215)
         then char_of (n + 32) else c)"

definition toLowerCase :: "string \<Rightarrow> string" where
  "toLowerCase s = map lowerChar s"

fun startsWith :: "string \<Rightarrow> string \<Rightarrow> bool" where
  "startsWith s [] = True"
| "startsWith [] (q # qs) = False"
| "startsWith (c # cs) (q # qs) = (c = q \<and> startsWith cs qs)"

text \<open>\<open>s.includes(q)\<close>: \<open>q\<close> occurs in \<open>s\<close> as a contiguous run.\<close>

fun includes_str :: "string \<Rightarrow> string \<Rightarrow> bool" where
  "includes_str [] q = (q = [])"
| "includes_str (c # cs) q = (startsWith (c # cs) q \<or> includes_str cs q)"

section \<open>Patterns and validators\<close>

definition isDigit :: "char \<Rightarrow> bool" where
  "isDigit c = (let n = (of_char c :: nat) in 48 \<le> n \<and> n \<le> 57)"

definition isAlnum :: "char \<Rightarrow> bool" where
  "isAlnum c = (let n = (of_char c :: nat)
                in (48 \<le> n \<and> n \<le> 57) \<or> (65 \<le> n \<and> n \<le> 90) \<or> (97 \<le> n \<and> n \<le> 122))"

text \<open>\<open>/^\+?[0-9\s\-\(\)]{7,20}$/\<close>\<close>

definition phoneClass :: "char \<Rightarrow> bool" where
  "phoneClass c = (isDigit c \<or> isWs c \<or> c = CHR ''-'' \<or> c = CHR ''('' \<or> c = CHR '')'')"

definition pattern_phone :: "string \<Rightarrow> bool" where
  "pattern_phone s =
     (let r = (case s of [] \<Rightarrow> [] | c # cs \<Rightarrow> if c = CHR ''+'' then cs else s)
      in 7 \<le> length r \<and> length r \<le> 20 \<and> list_all phoneClass r)"

text \<open>\<open>/^[A-Za-z0-9\-]{6,25}$/\<close>\<close>

definition pattern_policy :: "string \<Rightarrow> bool" where
  "pattern_policy s =
     (6 \<le> length s \<and> length s \<le> 25 \<and> list_all (\<lambda>c. isAlnum c \<or> c = CHR ''-'') s)"

text \<open>\<open>/^[A-Za-z0-9\- ]{3,12}$/\<close>\<close>

definition pattern_postal :: "string \<Rightarrow> bool" where
  "pattern_postal s =
     (3 \<le> length s \<and> length s \<le> 12 \<and>
      list_all (\<lambda>c. isAlnum c \<or> c = CHR ''-'' \<or> c = CHR '' '') s)"

definition isNonEmpty :: "string \<Rightarrow> bool" where
  "isNonEmpty v = (length (trim v) > 0)"

definition isValidPhone :: "string \<Rightarrow> bool" where
  "isValidPhone v = pattern_phone (trim v)"

definition isValidPolicy :: "string \<Rightarrow> bool" where
  "isValidPolicy v = pattern_policy (trim v)"

definition isValidPostal :: "string \<Rightarrow> bool" where
  "isValidPostal v = pattern_postal (trim v)"

section \<open>JavaScript values\<close>

text \<open>
  A number is a rational or \<open>NaN\<close>; the clamping of the step only compares numbers, which
  is exact. \<open>Math.max\<close> and \<open>Math.min\<close> return \<open>NaN\<close> as soon as one argument is \<open>NaN\<close>.
\<close>

datatype jsnum = Fin rat | NaN

fun math_max :: "jsnum \<Rightarrow> jsnum \<Rightarrow> jsnum" where
  "math_max (Fin a) (Fin b) = Fin (max a b)"
| "math_max _ _ = NaN"

fun math_min :: "jsnum \<Rightarrow> jsnum \<Rightarrow> jsnum" where
  "math_min (Fin a) (Fin b) = Fin (min a b)"
| "math_min _ _ = NaN"

fun num_add :: "jsnum \<Rightarrow> rat \<Rightarrow> jsnum" where
  "num_add (Fin a) b = Fin (a + b)"
| "num_add NaN b = NaN"

text \<open>What \<open>JSON.parse\<close> returns. An object is the list of its own properties.\<close>

datatype json =
    JNull
  | JBool bool
  | JNum rat
  | JStr string
  | JArr "json list"
  | JObj "(string \<times> json) list"

datatype error = TypeError | SyntaxError

text \<open>Truthiness, as \<open>!x\<close>, \<open>x || y\<close> and \<open>x && y\<close> test it.\<close>

fun truthy :: "json \<Rightarrow> bool" where
  "truthy JNull = False"
| "truthy (JBool b) = b"
| "truthy (JNum r) = (r \<noteq> 0)"
| "truthy (JStr s) = (s \<noteq> [])"
| "truthy (JArr xs) = True"
| "truthy (JObj kvs) = True"

text \<open>\<open>v.key\<close> for a property name that no prototype defines: only an object has it.\<close>

fun get_prop :: "json \<Rightarrow> string \<Rightarrow> json option" where
  "get_prop (JObj kvs) k = map_of kvs k"
| "get_prop _ k = None"

text \<open>\<open>x || d\<close> where \<open>x\<close> may be \<open>undefined\<close>.\<close>

fun or_else :: "json option \<Rightarrow> json \<Rightarrow> json" where
  "or_else None d = d"
| "or_else (Some v) d = (if truthy v then v else d)"

section \<open>The page and the browser\<close>

text \<open>
  A form control (\<open>input\<close>, \<open>select\<close> or \<open>textarea\<close>) of the page: its id, its current
  value, its \<open>type\<close> and \<open>name\<close>, whether it is \<open>required\<close>, what \<open>checkValidity()\<close>
  returns for it now, the step container it lies in (0 when in none), whether it belongs to
  the form \<open>#intake-form\<close> and the value \<open>form.reset()\<close> gives it then.
\<close>

record element =
  el_id :: string
  el_value :: string
  el_type :: string
  el_name :: string
  el_required :: bool
  el_validity :: bool
  el_step :: nat
  el_in_form :: bool
  el_default :: string

text \<open>
  The markup is not part of the script, and neither are the built-ins of the browser; the
  script's functions take them as a parameter:
  \<^item> \<open>date_ok v\<close> is \<open>new Date(v) <= new Date()\<close>;
  \<^item> \<open>str_num\<close> is the conversion of a string to a number, \<open>arr_str\<close> is
    \<open>Array.prototype.toString\<close>;
  \<^item> \<open>assign_value el v\<close> is what \<open>el.value\<close> reads after \<open>el.value = v\<close>;
  \<^item> \<open>can_store\<close>: \<open>localStorage.setItem\<close> does not throw;
  \<^item> \<open>has_step n\<close>: the container \<open>#step-n\<close> exists; \<open>has_el i\<close>: the element with id
    \<open>i\<close> exists, for the elements that are not form controls (the live regions, the
    summary cells, \<open>#allergy-chips\<close>, \<open>#provider-combobox\<close>);
  \<^item> \<open>step_message s\<close> is the text \<open>`Step ${s} of ${state.totalSteps}: ${name}`\<close> that
    \<open>goToStep\<close> announces, \<open>name\<close> being an attribute of the container.
\<close>

record env =
  date_ok :: "string \<Rightarrow> bool"
  str_num :: "string \<Rightarrow> jsnum"
  arr_str :: "json list \<Rightarrow> string"
  assign_value :: "element \<Rightarrow> json \<Rightarrow> string"
  can_store :: bool
  has_step :: "nat \<Rightarrow> bool"
  has_el :: "string \<Rightarrow> bool"
  step_message :: "jsnum \<Rightarrow> string"

text \<open>
  Whether the conversion of a value to a string throws: an object made by \<open>JSON.parse\<close>
  has no callable property of its own, so a property of its own named \<open>toString\<close> hides the
  inherited method and the conversion fails; an array converts its elements.
\<close>

fun str_throws :: "json \<Rightarrow> bool" where
  "str_throws (JArr xs) = (\<exists>x \<in> set xs. str_throws x)"
| "str_throws (JObj kvs) = (''toString'' \<in> set (map fst kvs))"
| "str_throws _ = False"

text \<open>
  \<open>ToNumber\<close>, as \<open>Math.max\<close> applies it. An array converts through its string, an
  object through \<open>"[object Object]"\<close>, which is not a number.
\<close>

fun toNumber :: "env \<Rightarrow> json \<Rightarrow> error + jsnum" where
  "toNumber e JNull = Inr (Fin 0)"
| "toNumber e (JBool b) = Inr (Fin (if b then 1 else 0))"
| "toNumber e (JNum r) = Inr (Fin r)"
| "toNumber e (JStr s) = Inr (str_num e s)"
| "toNumber e (JArr xs) =
     (if str_throws (JArr xs) then Inl TypeError else Inr (str_num e (arr_str e xs)))"
| "toNumber e (JObj kvs) = (if str_throws (JObj kvs) then Inl TypeError else Inr NaN)"

text \<open>
  The local storage entry \<open>intakeForm.v1\<close>: absent, a text on which \<open>JSON.parse\<close>
  throws, or a text that \<open>JSON.parse\<close> turns into a value.
\<close>

datatype raw = NoItem | BadText | Text json

datatype mark = Unmarked | Valid | Invalid

section \<open>State\<close>

text \<open>
  The module-level state: \<open>state.step\<close>, \<open>state.data\<close>, \<open>state.ui.contrast\<close>
  (\<open>state.totalSteps\<close> is never assigned and stays 4), the storage entry, the form controls
  of the document in document order, the \<open>valid\<close>/\<open>invalid\<close> class of each field's control
  container (by field id), the messages given to the two live regions, the combobox
  (\<open>listOpen\<close> is \<open>!providerListbox.hidden\<close>, \<open>options\<close> the texts of the rendered
  \<open>li.combo-option\<close> elements, \<open>providerActiveId\<close> the index \<open>i\<close> of \<open>provider-opt-i\<close>) and
  whether the timer of the simulated submission is pending.
\<close>

record app =
  step :: jsnum
  data :: "(string \<times> json) list"
  contrast :: bool
  storage :: raw
  controls :: "element list"
  marks :: "string \<Rightarrow> mark"
  polite :: "string list"
  assertive :: "string list"
  listOpen :: bool
  options :: "string list"
  providerActiveId :: "nat option"
  providerFiltered :: "string list"
  submitting :: bool

definition totalSteps :: rat where
  "totalSteps = 4"

definition field_names :: "string list" where
  "field_names =
     [''firstName'', ''lastName'', ''dob'', ''gender'', ''phone'', ''email'', ''address1'',
      ''address2'', ''city'', ''postalCode'', ''country'',
      ''provider'', ''policyNumber'', ''policyConfirm'', ''groupNumber'', ''coverageStart'',
      ''insurerPhone'',
      ''allergies'', ''conditions'', ''medications'', ''notes'']"

text \<open>The initial value of \<open>state.data\<close>, which the submission also assigns.\<close>

definition data0 :: "(string \<times> json) list" where
  "data0 =
     map (\<lambda>k. (k, if k = ''allergies'' \<or> k = ''conditions'' then JArr [] else JStr []))
       field_names"

definition PROVIDERS :: "string list" where
  "PROVIDERS =
     [''SIGMA Health'', ''Eurolife Insurance'', ''Vienna Insurance Group'', ''UNION Health'',
      ''Delfin Insurance'', ''Bupa'', ''Allianz'', ''Aetna'', ''Cigna'', ''Humana'',
      ''UnitedHealthcare'', ''Blue Cross Blue Shield'', ''Kaiser Permanente'', ''AXA'',
      ''Zurich Insurance'', ''MetLife'', ''Prudential'', ''Generali'', ''Engjelli Insurance'',
      ''Illyrian Health'']"

text \<open>\<open>announcePolite\<close>, \<open>announceAssertive\<close>: nothing without the live region.\<close>

definition announcePolite :: "env \<Rightarrow> string \<Rightarrow> app \<Rightarrow> app" where
  "announcePolite e msg a = (if has_el e ''live-region-polite'' then a\<lparr>polite := polite a @ [msg]\<rparr> else a)"

definition announceAssertive :: "env \<Rightarrow> string \<Rightarrow> app \<Rightarrow> app" where
  "announceAssertive e msg a =
     (if has_el e ''live-region-assertive'' then a\<lparr>assertive := assertive a @ [msg]\<rparr> else a)"

section \<open>Storage\<close>

text \<open>
  \<open>JSON.stringify(state)\<close>, read as the value \<open>JSON.parse\<close> gives back for it: \<open>NaN\<close> is
  written as \<open>null\<close>.
\<close>

definition snapshot :: "app \<Rightarrow> json" where
  "snapshot a =
     JObj [(''step'', case step a of Fin r \<Rightarrow> JNum r | NaN \<Rightarrow> JNull),
           (''totalSteps'', JNum totalSteps),
           (''data'', JObj (data a)),
           (''ui'', JObj [(''contrast'', JBool (contrast a))])]"

definition saveState :: "env \<Rightarrow> app \<Rightarrow> app" where
  "saveState e a = (if can_store e then a\<lparr>storage := Text (snapshot a)\<rparr> else a)"

text \<open>\<open>loadState\<close>: \<open>None\<close> is \<open>null\<close>.\<close>

definition loadState :: "app \<Rightarrow> json option" where
  "loadState a = (case storage a of NoItem \<Rightarrow> None | BadText \<Rightarrow> None | Text j \<Rightarrow> Some j)"

definition clearState :: "app \<Rightarrow> app" where
  "clearState a = a\<lparr>storage := NoItem\<rparr>"

definition persist :: "env \<Rightarrow> bool \<Rightarrow> app \<Rightarrow> app" where
  "persist e announce a =
     (let a1 = saveState e a
      in if announce then announcePolite e ''Progress saved.'' a1 else a1)"

section \<open>Validation\<close>

text \<open>\<open>document.getElementById(id)\<close>, among the form controls.\<close>

definition getElementById :: "element list \<Rightarrow> string \<Rightarrow> element option" where
  "getElementById cs i = find (\<lambda>el. el_id el = i) cs"

text \<open>\<open>setValid(control, ...)\<close> and \<open>setInvalid(control, ...)\<close> on the control of field \<open>i\<close>.\<close>

definition set_mark :: "string \<Rightarrow> bool \<Rightarrow> (string \<Rightarrow> mark) \<Rightarrow> (string \<Rightarrow> mark)" where
  "set_mark i ok m = m(i := (if ok then Valid else Invalid))"

text \<open>
  The \<open>switch (id)\<close> of \<open>validateField\<close>: the value of \<open>valid\<close>. The case
  \<open>policyConfirm\<close> reads \<open>$('#policyNumber').value\<close> once the value is not empty, which
  throws when there is no such element.
\<close>

definition check :: "env \<Rightarrow> element list \<Rightarrow> element \<Rightarrow> error + bool" where
  "check e cs el =
     (let i = el_id el; val = trim (el_value el)
      in if i \<in> set [''firstName'', ''lastName'', ''address1'', ''city'', ''country'']
           then Inr (isNonEmpty val)
         else if i = ''dob'' then Inr (isNonEmpty val \<and> date_ok e val)
         else if i = ''phone'' then Inr (isNonEmpty val \<and> isValidPhone val)
         else if i = ''email'' then Inr (el_validity el)
         else if i = ''postalCode'' then Inr (isValidPostal val)
         else if i = ''provider-input'' then Inr (isNonEmpty val)
         else if i = ''policyNumber'' then Inr (isValidPolicy val)
         else if i = ''policyConfirm'' then
           (if \<not> isNonEmpty val then Inr False
            else case getElementById cs ''policyNumber'' of
                   None \<Rightarrow> Inl TypeError
                 | Some pn \<Rightarrow> Inr (val = el_value pn))
         else if i = ''coverageStart'' then Inr (isNonEmpty val \<and> date_ok e val)
         else if i = ''insurerPhone'' then Inr (val = [] \<or> isValidPhone val)
         else Inr (if el_required el then el_validity el else True))"

text \<open>A call of \<open>validateField\<close> that does not validate another field: verdict and mark.\<close>

definition validate_one ::
  "env \<Rightarrow> element list \<Rightarrow> element \<Rightarrow> (string \<Rightarrow> mark) \<Rightarrow> (error + bool) \<times> (string \<Rightarrow> mark)" where
  "validate_one e cs el m =
     (case check e cs el of
        Inl x \<Rightarrow> (Inl x, m)
      | Inr ok \<Rightarrow> (Inr ok, set_mark (el_id el) ok m))"

text \<open>
  \<open>validateField(el)\<close>; \<open>None\<close> is \<open>null\<close>. In the case \<open>policyNumber\<close> the field
  \<open>#policyConfirm\<close> is validated first when it has a value; that inner call is in the case
  \<open>policyConfirm\<close> and goes no further.
\<close>

definition validateField ::
  "env \<Rightarrow> element list \<Rightarrow> element option \<Rightarrow> (string \<Rightarrow> mark) \<Rightarrow> (error + bool) \<times> (string \<Rightarrow> mark)" where
  "validateField e cs elo m =
     (case elo of
        None \<Rightarrow> (Inr True, m)
      | Some el \<Rightarrow>
          if el_id el = ''policyNumber'' then
            (case getElementById cs ''policyConfirm'' of
               None \<Rightarrow> validate_one e cs el m
             | Some c \<Rightarrow>
                 if el_value c = [] then validate_one e cs el m
                 else (case validate_one e cs c m of
                         (Inl x, m1) \<Rightarrow> (Inl x, m1)
                       | (Inr _, m1) \<Rightarrow> validate_one e cs el m1))
          else validate_one e cs el m)"

definition requiredByStep :: "jsnum \<Rightarrow> string list" where
  "requiredByStep s =
     (if s = Fin 1 then [''firstName'', ''lastName'', ''dob'', ''phone'', ''email'', ''address1'',
                         ''city'', ''postalCode'', ''country'']
      else if s = Fin 2 then [''provider-input'', ''policyNumber'', ''policyConfirm'',
                              ''coverageStart'']
      else [])"

text \<open>
  \<open>steps[stepNumber - 1]\<close>: the container, \<open>null\<close> when the page has none, \<open>undefined\<close>
  when the index is none of 0..3 (then \<open>$$\<close> searches the whole document).
\<close>

datatype root = Null | Document | Container nat

definition step_index :: "jsnum \<Rightarrow> nat option" where
  "step_index s =
     (if s = Fin 1 then Some 1 else if s = Fin 2 then Some 2
      else if s = Fin 3 then Some 3 else if s = Fin 4 then Some 4 else None)"

definition steps_at :: "env \<Rightarrow> jsnum \<Rightarrow> root" where
  "steps_at e s =
     (case step_index s of
        None \<Rightarrow> Document
      | Some n \<Rightarrow> if has_step e n then Container n else Null)"

text \<open>\<open>$$('input, select, textarea', root)\<close>; \<open>None\<close> when \<open>root\<close> is \<open>null\<close> (a TypeError).\<close>

definition controls_in :: "element list \<Rightarrow> root \<Rightarrow> element list option" where
  "controls_in cs r =
     (case r of
        Null \<Rightarrow> None
      | Document \<Rightarrow> Some cs
      | Container n \<Rightarrow> Some (filter (\<lambda>el. el_step el = n) cs))"

text \<open>
  The body shared by the two \<open>forEach\<close> loops of \<open>validateStep\<close>, over the elements they
  validate: \<open>ok = validateField(el); if (allValid && !ok) firstInvalid = el;
  allValid = allValid && ok\<close>.
\<close>

fun validate_each ::
  "env \<Rightarrow> element list \<Rightarrow> element option list \<Rightarrow> bool \<times> element option \<Rightarrow> (string \<Rightarrow> mark)
   \<Rightarrow> (error + bool \<times> element option) \<times> (string \<Rightarrow> mark)" where
  "validate_each e cs [] acc m = (Inr acc, m)"
| "validate_each e cs (elo # rest) (allValid, firstInvalid) m =
     (case validateField e cs elo m of
        (Inl x, m1) \<Rightarrow> (Inl x, m1)
      | (Inr ok, m1) \<Rightarrow>
          validate_each e cs rest
            (allValid \<and> ok, if allValid \<and> \<not> ok then elo else firstInvalid) m1)"

text \<open>The optional insurer phone, checked when \<open>stepNumber === 2\<close> and it has a value.\<close>

definition insurer_block ::
  "env \<Rightarrow> element list \<Rightarrow> jsnum \<Rightarrow> bool \<times> element option \<Rightarrow> (string \<Rightarrow> mark)
   \<Rightarrow> (error + bool \<times> element option) \<times> (string \<Rightarrow> mark)" where
  "insurer_block e cs s acc m =
     (if s = Fin 2 then
        (case getElementById cs ''insurerPhone'' of
           None \<Rightarrow> (Inr acc, m)
         | Some ip \<Rightarrow>
             if el_value ip = [] then (Inr acc, m)
             else (case validateField e cs (Some ip) m of
                     (Inl x, m1) \<Rightarrow> (Inl x, m1)
                   | (Inr ok, m1) \<Rightarrow>
                       if \<not> ok
                       then (Inr (False, if snd acc = None then Some ip else snd acc), m1)
                       else (Inr acc, m1)))
      else (Inr acc, m))"

text \<open>The elements of the step that the last loop validates.\<close>

definition optional_filter :: "string list \<Rightarrow> element \<Rightarrow> bool" where
  "optional_filter requiredIds el =
     (el_id el \<notin> set requiredIds \<and>
      ((el_value el \<noteq> [] \<and> length (trim (el_value el)) > 0) \<or> el_type el = ''date''))"

text \<open>\<open>validateStep(stepNumber)\<close> returns \<open>{ valid, firstInvalid }\<close>.\<close>

definition validateStep ::
  "env \<Rightarrow> element list \<Rightarrow> jsnum \<Rightarrow> (string \<Rightarrow> mark)
   \<Rightarrow> (error + bool \<times> element option) \<times> (string \<Rightarrow> mark)" where
  "validateStep e cs stepNumber m =
     (let requiredIds = requiredByStep stepNumber;
          stepEl = steps_at e stepNumber
      in case validate_each e cs (map (getElementById cs) requiredIds) (True, None) m of
           (Inl x, m1) \<Rightarrow> (Inl x, m1)
         | (Inr acc1, m1) \<Rightarrow>
             (case insurer_block e cs stepNumber acc1 m1 of
                (Inl x, m2) \<Rightarrow> (Inl x, m2)
              | (Inr acc2, m2) \<Rightarrow>
                  (case controls_in cs stepEl of
                     None \<Rightarrow> (Inl TypeError, m2)
                   | Some els \<Rightarrow>
                       validate_each e cs (map Some (filter (optional_filter requiredIds) els))
                         acc2 m2)))"

section \<open>Review\<close>

text \<open>
  \<open>populateReview\<close> only writes the summary cells of the page, which the state does not
  hold; what matters to its caller is whether it throws. It can, on a value that is not of
  the field's type (storage can bring one in): \<open>setSummary\<close> converts a truthy value to a
  string when the cell exists, \<open>join\<close> converts the elements of an array, and
  \<open>x.length ? x.join(', ') : ...\<close> needs \<open>x\<close> to have properties, and a \<open>join\<close> method
  when its length is truthy.
\<close>

definition summary_raises :: "env \<Rightarrow> (string \<times> json) list \<Rightarrow> string \<Rightarrow> bool" where
  "summary_raises e d k =
     (has_el e (''sum-'' @ k) \<and> (case map_of d k of None \<Rightarrow> False | Some v \<Rightarrow> str_throws v))"

fun join_raises :: "json option \<Rightarrow> bool" where
  "join_raises None = True"
| "join_raises (Some JNull) = True"
| "join_raises (Some (JBool b)) = False"
| "join_raises (Some (JNum r)) = False"
| "join_raises (Some (JStr s)) = (s \<noteq> [])"
| "join_raises (Some (JArr xs)) = (xs \<noteq> [] \<and> str_throws (JArr xs))"
| "join_raises (Some (JObj kvs)) =
     (case map_of kvs ''length'' of None \<Rightarrow> False | Some l \<Rightarrow> truthy l)"

definition populateReview :: "env \<Rightarrow> (string \<times> json) list \<Rightarrow> bool" where
  "populateReview e d =
     ((\<exists>k \<in> set [''firstName'', ''lastName'', ''dob'', ''gender'', ''phone'', ''email'', ''city'',
                  ''postalCode'', ''country'', ''provider'', ''policyNumber'', ''groupNumber'',
                  ''coverageStart'', ''insurerPhone'', ''medications'', ''notes''].
         summary_raises e d k) \<or>
      (\<exists>k \<in> set [''address1'', ''address2''].
         case map_of d k of None \<Rightarrow> False | Some v \<Rightarrow> str_throws v) \<or>
      join_raises (map_of d ''allergies'') \<or>
      (case map_of d ''conditions'' of
         None \<Rightarrow> False
       | Some v \<Rightarrow> truthy v \<and> join_raises (Some v)))"

section \<open>Navigation\<close>

text \<open>
  The selector \<open>`#back-${s}`\<close> of \<open>goToStep\<close> is not a selector when \<open>s\<close> is a
  fraction: after the id \<open>back-1\<close> the text \<open>.5\<close> would be a class name that starts with a
  digit, and \<open>querySelector\<close> throws a SyntaxError. It is one for an integer and for
  \<open>NaN\<close>.
\<close>

definition bad_selector :: "jsnum \<Rightarrow> bool" where
  "bad_selector s = (case s of Fin r \<Rightarrow> of_int \<lfloor>r\<rfloor> \<noteq> r | NaN \<Rightarrow> False)"

text \<open>
  \<open>goToStep(stepNumber, opts)\<close>. Changes of visibility, of the progress bar and of the
  focus are outside the state. With \<open>opts.focus\<close> the function searches the new container,
  which throws when that container is \<open>null\<close>; after the announcement it looks the Back
  button of the new step up, which throws when the step is a fraction. Both happen before
  \<open>state.step\<close> is assigned.
\<close>

definition goToStep :: "env \<Rightarrow> jsnum \<Rightarrow> bool \<Rightarrow> bool \<Rightarrow> app \<Rightarrow> error option \<times> app" where
  "goToStep e stepNumber focus announce a =
     (let s = math_min (math_max stepNumber (Fin 1)) (Fin totalSteps)
      in if focus \<and> steps_at e s = Null then (Some TypeError, a)
         else
           (let a1 = (if announce then announcePolite e (step_message e s) a else a)
            in if bad_selector s then (Some SyntaxError, a1)
               else (None, persist e False (a1\<lparr>step := s\<rparr>))))"

text \<open>
  What a handler did: it ran to its end, it refused the transition and focused
  \<open>firstInvalid\<close> (when there is one), or it threw.
\<close>

datatype outcome = Completed | Refused "element option" | Raised error

text \<open>
  \<open>handleNext\<close> and \<open>handleBack\<close>; \<open>hint\<close> is \<open>Number(btn.dataset.next)\<close>
  (\<open>Number(btn.dataset.prev)\<close>) when the button has this attribute and it is not empty.
\<close>

definition handleNext :: "env \<Rightarrow> jsnum option \<Rightarrow> app \<Rightarrow> outcome \<times> app" where
  "handleNext e hint a =
     (let next = (case hint of Some n \<Rightarrow> n | None \<Rightarrow> num_add (step a) 1);
          current = step a
      in case validateStep e (controls a) current (marks a) of
           (Inl x, m) \<Rightarrow> (Raised x, a\<lparr>marks := m\<rparr>)
         | (Inr (valid, firstInvalid), m) \<Rightarrow>
             if \<not> valid then
               (Refused firstInvalid,
                if firstInvalid \<noteq> None
                then announceAssertive e
                       ''Please correct the highlighted fields before proceeding.''
                       (a\<lparr>marks := m\<rparr>)
                else a\<lparr>marks := m\<rparr>)
             else if next = Fin 4 \<and> populateReview e (data a) then
               (Raised TypeError, a\<lparr>marks := m\<rparr>)
             else
               (case goToStep e next True True (a\<lparr>marks := m\<rparr>) of
                  (Some x, a1) \<Rightarrow> (Raised x, a1)
                | (None, a1) \<Rightarrow> (Completed, persist e False a1)))"

definition handleBack :: "env \<Rightarrow> jsnum option \<Rightarrow> app \<Rightarrow> outcome \<times> app" where
  "handleBack e hint a =
     (let prev = (case hint of Some n \<Rightarrow> n | None \<Rightarrow> num_add (step a) (- 1));
          target = math_max (Fin 1) prev
      in case goToStep e target True True a of
           (Some x, a1) \<Rightarrow> (Raised x, a1)
         | (None, a1) \<Rightarrow> (Completed, persist e False a1))"

section \<open>Restoring the saved progress\<close>

text \<open>The decimal name of an index, as a property key.\<close>

fun dec :: "nat \<Rightarrow> string" where
  "dec n = (if n < 10 then [char_of (48 + n)] else dec (n div 10) @ [char_of (48 + n mod 10)])"

text \<open>
  The own enumerable properties that \<open>Object.assign\<close> copies from a source: those of an
  object, the elements of an array and the characters of a string under their indices,
  none for a number or a boolean.
\<close>

fun own_entries :: "json \<Rightarrow> (string \<times> json) list" where
  "own_entries (JObj kvs) = kvs"
| "own_entries (JArr xs) = zip (map dec [0 ..< length xs]) xs"
| "own_entries (JStr s) = zip (map dec [0 ..< length s]) (map (\<lambda>c. JStr [c]) s)"
| "own_entries _ = []"

text \<open>
  \<open>Object.assign(target, source)\<close>: each property is assigned in turn. Assigning to
  \<open>__proto__\<close> runs the inherited setter and makes no property of the target.
\<close>

definition object_assign :: "(string \<times> json) list \<Rightarrow> json \<Rightarrow> (string \<times> json) list" where
  "object_assign target source =
     fold (\<lambda>(k, v) d. if k = ''__proto__'' then d else AList.update k v d)
       (own_entries source) target"

text \<open>\<open>el.value = val\<close> on the first control with the id.\<close>

fun set_value :: "env \<Rightarrow> string \<Rightarrow> json \<Rightarrow> element list \<Rightarrow> element list" where
  "set_value e i v [] = []"
| "set_value e i v (el # els) =
     (if el_id el = i then el\<lparr>el_value := assign_value e el v\<rparr> # els
      else el # set_value e i v els)"

text \<open>The loop that refills the controls, arrays left out.\<close>

definition refill :: "env \<Rightarrow> (string \<times> json) list \<Rightarrow> element list \<Rightarrow> element list" where
  "refill e d cs =
     fold (\<lambda>(k, v) cs'. case v of JArr xs \<Rightarrow> cs' | _ \<Rightarrow> set_value e k v cs') d cs"

text \<open>
  Checking the condition boxes calls \<open>(state.data.conditions || []).includes\<close> once per
  box: with a box on the page, it throws when the value is truthy and neither an array nor
  a string.
\<close>

definition conditions_raise :: "element list \<Rightarrow> (string \<times> json) list \<Rightarrow> bool" where
  "conditions_raise cs d =
     ((\<exists>el \<in> set cs. el_step el = 3 \<and> el_name el = ''conditions'') \<and>
      (case map_of d ''conditions'' of
         None \<Rightarrow> False
       | Some (JArr xs) \<Rightarrow> False
       | Some (JStr s) \<Rightarrow> False
       | Some v \<Rightarrow> truthy v))"

text \<open>
  \<open>renderAllergyChips\<close> rebuilds the chips from \<open>state.data.allergies\<close>; it returns at
  once without \<open>#allergy-chips\<close>, and otherwise throws when the value has no \<open>forEach\<close> or
  an entry has no string.
\<close>

definition renderAllergyChips :: "env \<Rightarrow> (string \<times> json) list \<Rightarrow> bool" where
  "renderAllergyChips e d =
     (has_el e ''allergy-chips'' \<and>
      (case map_of d ''allergies'' of
         Some (JArr xs) \<Rightarrow> str_throws (JArr xs)
       | _ \<Rightarrow> True))"

definition restoreFromStorage :: "env \<Rightarrow> app \<Rightarrow> error option \<times> app" where
  "restoreFromStorage e a =
     (case loadState a of
        None \<Rightarrow> (None, a)
      | Some saved \<Rightarrow>
          if \<not> truthy saved then (None, a)
          else
            (case toNumber e (or_else (get_prop saved ''step'') (JNum 1)) of
               Inl x \<Rightarrow> (Some x, a)
             | Inr n \<Rightarrow>
                 (let a1 = a\<lparr>step := math_min (math_max n (Fin 1)) (Fin totalSteps)\<rparr>;
                      a2 = a1\<lparr>data :=
                                object_assign (data a1)
                                  (or_else (get_prop saved ''data'') (JObj []))\<rparr>;
                      a3 = a2\<lparr>contrast :=
                                (case get_prop saved ''ui'' of
                                   None \<Rightarrow> False
                                 | Some ui \<Rightarrow>
                                     truthy ui \<and>
                                     (case get_prop ui ''contrast'' of
                                        None \<Rightarrow> False
                                      | Some c \<Rightarrow> truthy c))\<rparr>;
                      a4 = a3\<lparr>controls := refill e (data a3) (controls a3)\<rparr>
                  in if conditions_raise (controls a4) (data a4) then (Some TypeError, a4)
                     else if renderAllergyChips e (data a4) then (Some TypeError, a4)
                     else (None, a4))))"

text \<open>
  The module state when the script is loaded, for a page with the controls \<open>cs\<close>, the
  storage entry \<open>st\<close> and the attribute \<open>hidden\<close> of the provider list as the markup has it.
  The list has no option before \<open>renderProviderList\<close> has run, which \<open>init\<close> does before
  any listener of the combobox exists.
\<close>

definition no_marks :: "string \<Rightarrow> mark" where
  "no_marks = (\<lambda>i. Unmarked)"

definition initial :: "element list \<Rightarrow> raw \<Rightarrow> bool \<Rightarrow> app" where
  "initial cs st opened =
     \<lparr>step = Fin 1, data = data0, contrast = False, storage = st, controls = cs,
      marks = no_marks, polite = [], assertive = [], listOpen = opened, options = [],
      providerActiveId = None, providerFiltered = PROVIDERS, submitting = False\<rparr>"

section \<open>Provider combobox\<close>

text \<open>
  A string assigned to the \<open>value\<close> of a text field (the provider input, the allergy
  input) is kept without its line breaks.
\<close>

definition text_value :: "string \<Rightarrow> string" where
  "text_value t = filter (\<lambda>c. c \<noteq> CHR 0x0A \<and> c \<noteq> CHR 0x0D) t"

fun set_text :: "string \<Rightarrow> string \<Rightarrow> element list \<Rightarrow> element list" where
  "set_text i t [] = []"
| "set_text i t (el # els) =
     (if el_id el = i then el\<lparr>el_value := text_value t\<rparr> # els else el # set_text i t els)"

text \<open>
  \<open>key in state.data\<close> also finds what \<open>Object.prototype\<close> defines; \<open>syncState\<close> then
  assigns, which makes an own property except for \<open>__proto__\<close>.
\<close>

definition proto_keys :: "string list" where
  "proto_keys =
     [''constructor'', ''__defineGetter__'', ''__defineSetter__'', ''hasOwnProperty'',
      ''__lookupGetter__'', ''__lookupSetter__'', ''isPrototypeOf'', ''propertyIsEnumerable'',
      ''toString'', ''valueOf'', ''__proto__'', ''toLocaleString'']"

definition syncState :: "string \<Rightarrow> string \<Rightarrow> (string \<times> json) list \<Rightarrow> (string \<times> json) list" where
  "syncState k v d =
     (if k \<in> set (map fst d) \<or> k \<in> set proto_keys
      then (if k = ''__proto__'' then d else AList.update k (JStr v) d)
      else d)"

definition renderProviderList :: "string list \<Rightarrow> app \<Rightarrow> app" where
  "renderProviderList items a =
     a\<lparr>options := items, providerActiveId := (if items \<noteq> [] then Some 0 else None)\<rparr>"

definition openProviderList :: "app \<Rightarrow> app" where
  "openProviderList a = a\<lparr>listOpen := True\<rparr>"

definition closeProviderList :: "app \<Rightarrow> app" where
  "closeProviderList a = a\<lparr>listOpen := False\<rparr>"

text \<open>
  The listeners of the combobox are added by \<open>initProviderCombobox\<close> only when the input,
  the toggle and the list all exist.
\<close>

definition combo_ready :: "env \<Rightarrow> app \<Rightarrow> bool" where
  "combo_ready e a =
     (getElementById (controls a) ''provider-input'' \<noteq> None \<and>
      has_el e ''provider-toggle'' \<and> has_el e ''provider-listbox'')"

definition initProviderCombobox :: "env \<Rightarrow> app \<Rightarrow> app" where
  "initProviderCombobox e a =
     (if combo_ready e a then renderProviderList (providerFiltered a) a else a)"

text \<open>The browser puts the typed text into the control before the listeners run.\<close>

fun type_into :: "string \<Rightarrow> string \<Rightarrow> element list \<Rightarrow> element list" where
  "type_into i t [] = []"
| "type_into i t (el # els) =
     (if el_id el = i then el\<lparr>el_value := t\<rparr> # els else el # type_into i t els)"

text \<open>The debounced listener of \<open>input\<close> on the provider input.\<close>

definition onProviderInput :: "env \<Rightarrow> app \<Rightarrow> outcome \<times> app" where
  "onProviderInput e a =
     (case getElementById (controls a) ''provider-input'' of
        None \<Rightarrow> (Completed, a)
      | Some providerInput \<Rightarrow>
          if \<not> combo_ready e a then (Completed, a)
          else
            (let q = toLowerCase (trim (el_value providerInput));
                 filtered = filter (\<lambda>p. includes_str (toLowerCase p) q) PROVIDERS;
                 a1 = renderProviderList filtered (a\<lparr>providerFiltered := filtered\<rparr>);
                 a2 = (if filtered \<noteq> [] then openProviderList a1 else closeProviderList a1);
                 a3 = a2\<lparr>data := syncState ''provider'' (el_value providerInput) (data a2)\<rparr>
             in case validateField e (controls a3) (Some providerInput) (marks a3) of
                  (Inl x, m) \<Rightarrow> (Raised x, a3\<lparr>marks := m\<rparr>)
                | (Inr ok, m) \<Rightarrow> (Completed, persist e True (a3\<lparr>marks := m\<rparr>))))"

text \<open>
  \<open>selectProvider(opt)\<close>, given the text of the option. The input is validated with the
  value it has after the assignment.
\<close>

definition selectProvider :: "env \<Rightarrow> string \<Rightarrow> app \<Rightarrow> outcome \<times> app" where
  "selectProvider e txt a =
     (let cs = set_text ''provider-input'' txt (controls a)
      in case getElementById cs ''provider-input'' of
           None \<Rightarrow> (Raised TypeError, a)
         | Some providerInput \<Rightarrow>
             (let a1 = a\<lparr>controls := cs,
                        data := syncState ''provider'' (el_value providerInput) (data a)\<rparr>
              in case validateField e cs (Some providerInput) (marks a1) of
                   (Inl x, m) \<Rightarrow> (Raised x, a1\<lparr>marks := m\<rparr>)
                 | (Inr ok, m) \<Rightarrow>
                     (Completed, closeProviderList (persist e True (a1\<lparr>marks := m\<rparr>)))))"

text \<open>A click on the rendered option number \<open>i\<close>.\<close>

definition clickOption :: "env \<Rightarrow> nat \<Rightarrow> app \<Rightarrow> outcome \<times> app" where
  "clickOption e i a =
     (if combo_ready e a \<and> i < length (options a) then selectProvider e (options a ! i) a
      else (Completed, a))"

datatype key = ArrowDown | ArrowUp | Home | End | Enter | Escape | OtherKey

text \<open>\<open>options.findIndex((o) => o.id === providerActiveId)\<close>, \<open>-1\<close> when there is none.\<close>

definition active_index :: "app \<Rightarrow> int" where
  "active_index a =
     (case providerActiveId a of
        None \<Rightarrow> - 1
      | Some i \<Rightarrow> if i < length (options a) then int i else - 1)"

definition moveProviderActive :: "nat \<Rightarrow> app \<Rightarrow> app" where
  "moveProviderActive index a = a\<lparr>providerActiveId := Some index\<rparr>"

definition onProviderKeydown :: "env \<Rightarrow> key \<Rightarrow> app \<Rightarrow> outcome \<times> app" where
  "onProviderKeydown e k a =
     (if \<not> combo_ready e a then (Completed, a)
      else
        (let opened = listOpen a; n = length (options a); idx = active_index a;
             a1 = (if \<not> opened then openProviderList a else a)
         in case k of
              ArrowDown \<Rightarrow>
                if n = 0 then (Completed, a1)
                else (Completed, moveProviderActive (nat (min (idx + 1) (int n - 1))) a1)
            | ArrowUp \<Rightarrow>
                if n = 0 then (Completed, a1)
                else (Completed, moveProviderActive (nat (max (idx - 1) 0)) a1)
            | Home \<Rightarrow>
                if n = 0 then (Completed, a1) else (Completed, moveProviderActive 0 a1)
            | End \<Rightarrow>
                if n = 0 then (Completed, a1) else (Completed, moveProviderActive (n - 1) a1)
            | Enter \<Rightarrow>
                if \<not> opened then (Completed, a)
                else if n = 0 then (Completed, a)
                else selectProvider e (options a ! (if idx \<ge> 0 then nat idx else 0)) a
            | Escape \<Rightarrow> if opened then (Completed, closeProviderList a) else (Completed, a)
            | OtherKey \<Rightarrow> (Completed, a)))"

text \<open>The toggle button, and a click outside \<open>#provider-combobox\<close>.\<close>

definition onProviderToggle :: "env \<Rightarrow> app \<Rightarrow> app" where
  "onProviderToggle e a =
     (if \<not> combo_ready e a then a
      else if listOpen a then closeProviderList a else openProviderList a)"

definition onOutsideClick :: "env \<Rightarrow> app \<Rightarrow> outcome \<times> app" where
  "onOutsideClick e a =
     (if \<not> combo_ready e a then (Completed, a)
      else if \<not> has_el e ''provider-combobox'' then (Raised TypeError, a)
      else (Completed, closeProviderList a))"

section \<open>Allergies\<close>

text \<open>
  \<open>addAllergyFromInput\<close>. \<open>state.data.allergies.includes(val)\<close> is the membership test of
  an array and the substring test of a string, and throws on any other value;
  \<open>push\<close> exists on an array only.
\<close>

definition addAllergyFromInput :: "env \<Rightarrow> app \<Rightarrow> outcome \<times> app" where
  "addAllergyFromInput e a =
     (case getElementById (controls a) ''allergyInput'' of
        None \<Rightarrow> (Raised TypeError, a)
      | Some allergyInput \<Rightarrow>
          (let val = trim (el_value allergyInput);
               cleared = set_text ''allergyInput'' [] (controls a)
           in if val = [] then (Completed, a)
              else
                (case map_of (data a) ''allergies'' of
                   Some (JArr xs) \<Rightarrow>
                     if JStr val \<in> set xs then
                       (Completed,
                        (announcePolite e ''Allergy already added.'' a)\<lparr>controls := cleared\<rparr>)
                     else
                       (let a1 = a\<lparr>data :=
                                     AList.update ''allergies'' (JArr (xs @ [JStr val])) (data a),
                                   controls := cleared\<rparr>
                        in if renderAllergyChips e (data a1) then (Raised TypeError, a1)
                           else (Completed, persist e True a1))
                 | Some (JStr s) \<Rightarrow>
                     if includes_str s val then
                       (Completed,
                        (announcePolite e ''Allergy already added.'' a)\<lparr>controls := cleared\<rparr>)
                     else (Raised TypeError, a)
                 | _ \<Rightarrow> (Raised TypeError, a))))"

text \<open>
  The button of chip number \<open>index\<close>: \<open>state.data.allergies.splice(index, 1)\<close>, then the
  chips are rendered again and the state is saved. The chips exist only for an array.
\<close>

definition removeAllergy :: "env \<Rightarrow> nat \<Rightarrow> app \<Rightarrow> outcome \<times> app" where
  "removeAllergy e index a =
     (case map_of (data a) ''allergies'' of
        Some (JArr xs) \<Rightarrow>
          (let a1 = a\<lparr>data :=
                        AList.update ''allergies'' (JArr (take index xs @ drop (Suc index) xs))
                          (data a)\<rparr>
           in if renderAllergyChips e (data a1) then (Raised TypeError, a1)
              else (Completed, persist e True a1))
      | _ \<Rightarrow> (Completed, a))"

section \<open>Submit\<close>

text \<open>The loop \<open>for (let s = 1; s <= 3; s++)\<close> of \<open>handleSubmit\<close>, from \<open>s\<close> on.\<close>

fun submit_loop :: "env \<Rightarrow> nat list \<Rightarrow> app \<Rightarrow> outcome \<times> app" where
  "submit_loop e [] a = (Completed, a)"
| "submit_loop e (s # rest) a =
     (case validateStep e (controls a) (Fin (of_nat s)) (marks a) of
        (Inl x, m) \<Rightarrow> (Raised x, a\<lparr>marks := m\<rparr>)
      | (Inr (valid, firstInvalid), m) \<Rightarrow>
          if \<not> valid then
            (case goToStep e (Fin (of_nat s)) True True (a\<lparr>marks := m\<rparr>) of
               (Some x, a1) \<Rightarrow> (Raised x, a1)
             | (None, a1) \<Rightarrow>
                 (Refused firstInvalid,
                  announceAssertive e ''Please fix the errors in this step.'' a1))
          else submit_loop e rest (a\<lparr>marks := m\<rparr>))"

text \<open>
  \<open>handleSubmit\<close>, up to the call of \<open>setTimeout\<close>; \<open>submitting\<close> records that the
  callback is scheduled.
\<close>

definition handleSubmit :: "env \<Rightarrow> app \<Rightarrow> outcome \<times> app" where
  "handleSubmit e a =
     (case validateStep e (controls a) (step a) (marks a) of
        (Inl x, m) \<Rightarrow> (Raised x, a\<lparr>marks := m\<rparr>)
      | (Inr (valid, firstInvalid), m) \<Rightarrow>
          if \<not> valid then
            (Refused firstInvalid,
             announceAssertive e ''Please correct errors before submitting.'' (a\<lparr>marks := m\<rparr>))
          else
            (case submit_loop e [1, 2, 3] (a\<lparr>marks := m\<rparr>) of
               (Completed, a1) \<Rightarrow> (Completed, a1\<lparr>submitting := True\<rparr>)
             | r \<Rightarrow> r))"

text \<open>\<open>form.reset()\<close>\<close>

definition form_reset :: "element list \<Rightarrow> element list" where
  "form_reset cs = map (\<lambda>el. if el_in_form el then el\<lparr>el_value := el_default el\<rparr> else el) cs"

text \<open>The callback that \<open>handleSubmit\<close> gives to \<open>setTimeout\<close>.\<close>

definition submitted :: "env \<Rightarrow> app \<Rightarrow> outcome \<times> app" where
  "submitted e a =
     (let a1 = clearState (a\<lparr>submitting := False\<rparr>);
          a2 = a1\<lparr>controls := form_reset (controls a1)\<rparr>;
          a3 = a2\<lparr>data := object_assign (data a2) (JObj data0)\<rparr>
      in if renderAllergyChips e (data a3) then (Raised TypeError, a3)
         else
           (case goToStep e (Fin 1) True True a3 of
              (Some x, a4) \<Rightarrow> (Raised x, a4)
            | (None, a4) \<Rightarrow>
                (Completed, announcePolite e ''Form submitted and progress cleared.'' a4)))"

section \<open>Start\<close>

text \<open>\<open>init\<close>: the saved progress, the list of providers, the restored step.\<close>

definition init :: "env \<Rightarrow> app \<Rightarrow> error option \<times> app" where
  "init e a =
     (case restoreFromStorage e a of
        (Some x, a1) \<Rightarrow> (Some x, a1)
      | (None, a1) \<Rightarrow> goToStep e (step a1) True False (initProviderCombobox e a1))"

section \<open>Notions used by the properties\<close>

subsection \<open>A sample page\<close>

text \<open>
  A browser and a page to evaluate the script on: every element the script looks up
  exists, storage accepts writes, every date is in the past, no string or array converts
  to a number, and a control keeps the string it is assigned.
\<close>

definition env0 :: env where
  "env0 =
     \<lparr>date_ok = (\<lambda>v. True), str_num = (\<lambda>s. NaN), arr_str = (\<lambda>xs. []),
      assign_value = (\<lambda>el v. case v of JStr s \<Rightarrow> s | _ \<Rightarrow> []),
      can_store = True, has_step = (\<lambda>n. True), has_el = (\<lambda>i. True),
      step_message = (\<lambda>s. ''Step'')\<rparr>"

subsection \<open>Steps\<close>

text \<open>A number of \<open>[1, totalSteps]\<close>, and an integer of that range.\<close>

definition in_range :: "jsnum \<Rightarrow> bool" where
  "in_range s = (case s of Fin r \<Rightarrow> 1 \<le> r \<and> r \<le> totalSteps | NaN \<Rightarrow> False)"

definition is_step :: "jsnum \<Rightarrow> bool" where
  "is_step s =
     (case s of Fin r \<Rightarrow> 1 \<le> r \<and> r \<le> totalSteps \<and> of_int \<lfloor>r\<rfloor> = r | NaN \<Rightarrow> False)"

definition clamp :: "jsnum \<Rightarrow> jsnum" where
  "clamp n = math_min (math_max n (Fin 1)) (Fin totalSteps)"

text \<open>A number, and a target hint that is one when the button has a hint.\<close>

definition is_number :: "jsnum \<Rightarrow> bool" where
  "is_number n = (case n of Fin r \<Rightarrow> True | NaN \<Rightarrow> False)"

definition num_hint :: "jsnum option \<Rightarrow> bool" where
  "num_hint h = (case h of None \<Rightarrow> True | Some n \<Rightarrow> is_number n)"

text \<open>
  The values that clamping turns into a step: a number that is an integer, or at most 1,
  or at least \<open>totalSteps\<close>.
\<close>

definition clamps_to_step :: "jsnum \<Rightarrow> bool" where
  "clamps_to_step n =
     (case n of Fin r \<Rightarrow> r \<le> 1 \<or> totalSteps \<le> r \<or> of_int \<lfloor>r\<rfloor> = r | NaN \<Rightarrow> False)"

text \<open>The number that the restore clamps: \<open>saved.step || 1\<close>, converted by \<open>Math.max\<close>.\<close>

definition saved_step :: "env \<Rightarrow> json \<Rightarrow> error + jsnum" where
  "saved_step e saved = toNumber e (or_else (get_prop saved ''step'') (JNum 1))"

text \<open>A text control of the form, in the container of step \<open>n\<close>, with the value \<open>v\<close>.\<close>

definition ctl :: "string \<Rightarrow> string \<Rightarrow> nat \<Rightarrow> element" where
  "ctl i v n =
     \<lparr>el_id = i, el_value = v, el_type = ''text'', el_name = i, el_required = False,
      el_validity = True, el_step = n, el_in_form = True, el_default = []\<rparr>"

text \<open>A form filled in so that every step validates, and the same without a first name.\<close>

definition form_ok :: "element list" where
  "form_ok =
     [ctl ''firstName'' ''Ann'' 1, ctl ''lastName'' ''Lee'' 1, ctl ''dob'' ''1990-01-01'' 1,
      ctl ''phone'' ''+1 555 123 4567'' 1, ctl ''email'' ''ann@example.org'' 1,
      ctl ''address1'' ''1 Main St'' 1, ctl ''city'' ''Oslo'' 1,
      ctl ''postalCode'' ''A1B 2C3'' 1, ctl ''country'' ''NO'' 1,
      ctl ''provider-input'' ''Allianz'' 2, ctl ''policyNumber'' ''AB-123456'' 2,
      ctl ''policyConfirm'' ''AB-123456'' 2, ctl ''coverageStart'' ''2020-01-01'' 2,
      ctl ''insurerPhone'' [] 2, ctl ''allergyInput'' [] 3]"

definition form_bad :: "element list" where
  "form_bad = type_into ''firstName'' [] form_ok"

text \<open>The page has the four step containers.\<close>

definition all_steps :: "env \<Rightarrow> bool" where
  "all_steps e = (has_step e 1 \<and> has_step e 2 \<and> has_step e 3 \<and> has_step e 4)"

text \<open>
  The target hint of a Back button, when it has one, is a number and at most \<open>N\<close>; and
  it is an integer, or at most 1.
\<close>

definition hint_at_most :: "jsnum option \<Rightarrow> rat \<Rightarrow> bool" where
  "hint_at_most h N =
     (case h of None \<Rightarrow> True | Some (Fin r) \<Rightarrow> r \<le> N | Some NaN \<Rightarrow> False)"

definition hint_whole :: "jsnum option \<Rightarrow> bool" where
  "hint_whole h =
     (case h of
        None \<Rightarrow> True
      | Some (Fin r) \<Rightarrow> of_int \<lfloor>r\<rfloor> = r \<or> r \<le> 1
      | Some NaN \<Rightarrow> False)"

text \<open>The sample page without the container of step 1.\<close>

definition env_no_step1 :: env where
  "env_no_step1 = env0\<lparr>has_step := (\<lambda>n. n \<noteq> 1)\<rparr>"

subsection \<open>Verdicts of a step\<close>

text \<open>
  What \<open>validateStep\<close> returns for a step (the marks play no part in it): the step is
  valid, or it fails validation, or the validation throws.
\<close>

definition step_verdict :: "env \<Rightarrow> element list \<Rightarrow> jsnum \<Rightarrow> error + bool \<times> element option" where
  "step_verdict e cs s = fst (validateStep e cs s no_marks)"

definition step_valid :: "env \<Rightarrow> element list \<Rightarrow> jsnum \<Rightarrow> bool" where
  "step_valid e cs s = (case step_verdict e cs s of Inr (valid, fi) \<Rightarrow> valid | Inl x \<Rightarrow> False)"

definition step_invalid :: "env \<Rightarrow> element list \<Rightarrow> jsnum \<Rightarrow> bool" where
  "step_invalid e cs s =
     (case step_verdict e cs s of Inr (valid, fi) \<Rightarrow> \<not> valid | Inl x \<Rightarrow> False)"

text \<open>
  The sample form with a policy number that is too short, and the state on the review
  step of a page with given controls and nothing stored.
\<close>

definition form_policy_bad :: "element list" where
  "form_policy_bad = type_into ''policyNumber'' ''x'' form_ok"

definition at_review :: "element list \<Rightarrow> app" where
  "at_review cs = (initial cs NoItem False)\<lparr>step := Fin 4\<rparr>"

text \<open>A stored record with one field of the data only: \<open>{"data": {"firstName": "Ann"}}\<close>.\<close>

definition partial_record :: raw where
  "partial_record = Text (JObj [(''data'', JObj [(''firstName'', JStr ''Ann'')])])"

text \<open>The sample form with a space typed after the confirmation of the policy number.\<close>

definition form_confirm_spaced :: "element list" where
  "form_confirm_spaced = type_into ''policyConfirm'' ''AB-123456 '' form_ok"

subsection \<open>The provider list\<close>

text \<open>
  Following the words of the specification: a name contains a text case-insensitively
  when the text, in lower case, occurs somewhere in the name, in lower case.
\<close>

definition contains_ci :: "string \<Rightarrow> string \<Rightarrow> bool" where
  "contains_ci name q = (\<exists>pre post. toLowerCase name = pre @ toLowerCase q @ post)"

text \<open>The state after the user has typed \<open>t\<close> into the provider input.\<close>

definition typed_provider :: "string \<Rightarrow> app \<Rightarrow> app" where
  "typed_provider t a = a\<lparr>controls := type_into ''provider-input'' t (controls a)\<rparr>"

text \<open>
  The rendered options and the filtered list are taken from the catalog, in its order.
\<close>

definition from_catalog :: "app \<Rightarrow> bool" where
  "from_catalog a = (subseq (options a) PROVIDERS \<and> subseq (providerFiltered a) PROVIDERS)"

text \<open>\<open>state.data.provider\<close> is a name of the catalog.\<close>

definition provider_in_catalog :: "app \<Rightarrow> bool" where
  "provider_in_catalog a = (\<exists>p \<in> set PROVIDERS. map_of (data a) ''provider'' = Some (JStr p))"

text \<open>The sample page after the start, with the provider list opened by its toggle.\<close>

definition combo_opened :: app where
  "combo_opened = onProviderToggle env0 (snd (init env0 (initial form_ok NoItem False)))"

subsection \<open>Allergies\<close>

text \<open>
  The state after the user has typed \<open>t\<close> into the allergy input, and the sample page
  after \<open>nuts\<close> has been typed and added.
\<close>

definition typed_allergy :: "string \<Rightarrow> app \<Rightarrow> app" where
  "typed_allergy t a = a\<lparr>controls := type_into ''allergyInput'' t (controls a)\<rparr>"

definition one_allergy :: app where
  "one_allergy =
     snd (addAllergyFromInput env0 (typed_allergy ''nuts'' (initial form_ok NoItem False)))"

subsection \<open>Stored records\<close>

text \<open>
  Stored records whose step is 9, is 2.5, and is an object whose own \<open>toString\<close> is the
  number 1, so that its conversion throws; the last also holds a first name.
\<close>

definition rec_step_9 :: raw where
  "rec_step_9 = Text (JObj [(''step'', JNum 9)])"

definition rec_step_half :: raw where
  "rec_step_half = Text (JObj [(''step'', JNum (5 / 2))])"

definition rec_step_throws :: raw where
  "rec_step_throws =
     Text (JObj [(''step'', JObj [(''toString'', JNum 1)]),
                 (''data'', JObj [(''firstName'', JStr ''Ann'')])])"

text \<open>The properties that \<open>Object.assign\<close> creates or replaces from a source, in their order.\<close>

definition assigned :: "json \<Rightarrow> (string \<times> json) list" where
  "assigned src = filter (\<lambda>kv. fst kv \<noteq> ''__proto__'') (own_entries src)"

text \<open>The entries \<open>{"data": "ab"}\<close> and \<open>{"data": null}\<close>.\<close>

definition rec_data_string :: raw where
  "rec_data_string = Text (JObj [(''data'', JStr ''ab'')])"

definition rec_data_null :: raw where
  "rec_data_null = Text (JObj [(''data'', JNull)])"

text \<open>
  The sample page after the start, once \<open>zzz\<close>, which no name of the catalog contains, has
  been typed into the provider input and \<open>ArrowDown\<close> has been pressed.
\<close>

definition combo_no_match :: app where
  "combo_no_match =
     snd (onProviderKeydown env0 ArrowDown
            (snd (onProviderInput env0
                    (typed_provider ''zzz'' (snd (init env0 (initial form_ok NoItem False)))))))"

text \<open>
  The entries \<open>{"data": {"provider": "Acme"}}\<close> and \<open>{"data": {"allergies": ["nuts", "nuts"]}}\<close>.
\<close>

definition rec_provider_acme :: raw where
  "rec_provider_acme = Text (JObj [(''data'', JObj [(''provider'', JStr ''Acme'')])])"

definition rec_dup_allergies :: raw where
  "rec_dup_allergies =
     Text (JObj [(''data'', JObj [(''allergies'', JArr [JStr ''nuts'', JStr ''nuts''])])])"

subsection \<open>Failing fields\<close>

text \<open>
  The field with id \<open>i\<close> fails validation: the page has it and \<open>validateField\<close> computes
  \<open>valid = false\<close> for it.
\<close>

definition fails :: "env \<Rightarrow> element list \<Rightarrow> string \<Rightarrow> bool" where
  "fails e cs i =
     (case getElementById cs i of None \<Rightarrow> False | Some el \<Rightarrow> check e cs el = Inr False)"

text \<open>The first required field of a step that fails, in the order of \<open>requiredByStep\<close>.\<close>

definition first_invalid :: "env \<Rightarrow> element list \<Rightarrow> jsnum \<Rightarrow> element option" where
  "first_invalid e cs s =
     (case find (fails e cs) (requiredByStep s) of
        None \<Rightarrow> None
      | Some i \<Rightarrow> getElementById cs i)"

text \<open>What \<open>validateField\<close> returns for an element or \<open>null\<close>, when it returns.\<close>

definition passes :: "env \<Rightarrow> element list \<Rightarrow> element option \<Rightarrow> bool" where
  "passes e cs elo = (case elo of None \<Rightarrow> True | Some el \<Rightarrow> check e cs el = Inr True)"

section \<open>Properties\<close>

subsection \<open>Fields that saving and announcing leave alone\<close>

lemma persist_fields:
  "step (persist e b a) = step a"
  "data (persist e b a) = data a"
  "controls (persist e b a) = controls a"
  "marks (persist e b a) = marks a"
  "contrast (persist e b a) = contrast a"
  "options (persist e b a) = options a"
  "listOpen (persist e b a) = listOpen a"
  "providerActiveId (persist e b a) = providerActiveId a"
  "providerFiltered (persist e b a) = providerFiltered a"
  "assertive (persist e b a) = assertive a"
  "submitting (persist e b a) = submitting a"
  by (simp_all add: persist_def saveState_def announcePolite_def Let_def)

lemma announceAssertive_fields:
  "step (announceAssertive e msg a) = step a"
  "data (announceAssertive e msg a) = data a"
  "storage (announceAssertive e msg a) = storage a"
  "controls (announceAssertive e msg a) = controls a"
  "marks (announceAssertive e msg a) = marks a"
  "options (announceAssertive e msg a) = options a"
  by (simp_all add: announceAssertive_def)

lemma announcePolite_fields:
  "step (announcePolite e msg a) = step a"
  "data (announcePolite e msg a) = data a"
  "storage (announcePolite e msg a) = storage a"
  "controls (announcePolite e msg a) = controls a"
  "marks (announcePolite e msg a) = marks a"
  "options (announcePolite e msg a) = options a"
  by (simp_all add: announcePolite_def)

subsection \<open>The marks do not decide a verdict\<close>

lemma validate_one_fst: "fst (validate_one e cs el m) = check e cs el"
  by (simp add: validate_one_def split: sum.splits)

lemma validateField_fst: "fst (validateField e cs elo m) = fst (validateField e cs elo m')"
proof -
  have one: "fst (validate_one e cs x n) = fst (validate_one e cs x n')" for x n n'
    by (simp add: validate_one_fst)
  have two: "fst (case validate_one e cs c n of
                    (Inl x, m1) \<Rightarrow> (Inl x, m1)
                  | (Inr _, m1) \<Rightarrow> validate_one e cs el m1) =
             (case check e cs c of Inl x \<Rightarrow> Inl x | Inr _ \<Rightarrow> check e cs el)" for c el n
    using validate_one_fst [of e cs c n]
    by (cases "validate_one e cs c n") (auto simp: validate_one_fst split: sum.splits)
  show ?thesis
    by (simp add: validateField_def two validate_one_fst split: option.splits)
qed

lemma validate_each_fst:
  "fst (validate_each e cs elos acc m) = fst (validate_each e cs elos acc m')"
proof (induction elos arbitrary: acc m m')
  case Nil
  then show ?case by simp
next
  case (Cons elo rest)
  obtain av fi where acc: "acc = (av, fi)" by (cases acc)
  obtain r m1 where v: "validateField e cs elo m = (r, m1)" by (cases "validateField e cs elo m")
  obtain r' m1' where v': "validateField e cs elo m' = (r', m1')"
    by (cases "validateField e cs elo m'")
  from v v' validateField_fst [of e cs elo m m'] have rr: "r' = r" by simp
  show ?case
  proof (cases r)
    case (Inl x)
    with acc v v' rr show ?thesis by simp
  next
    case (Inr ok)
    with acc v v' rr Cons.IH [of "(av \<and> ok, if av \<and> \<not> ok then elo else fi)" m1 m1']
    show ?thesis by simp
  qed
qed

lemma insurer_block_fst:
  "fst (insurer_block e cs s acc m) = fst (insurer_block e cs s acc m')"
proof (cases "s = Fin 2")
  case False
  then show ?thesis by (simp add: insurer_block_def)
next
  case True
  show ?thesis
  proof (cases "getElementById cs ''insurerPhone''")
    case None
    with True show ?thesis by (simp add: insurer_block_def)
  next
    case (Some ip)
    obtain r m1 where v: "validateField e cs (Some ip) m = (r, m1)"
      by (cases "validateField e cs (Some ip) m")
    obtain r' m1' where v': "validateField e cs (Some ip) m' = (r', m1')"
      by (cases "validateField e cs (Some ip) m'")
    from v v' validateField_fst [of e cs "Some ip" m m'] have rr: "r' = r" by simp
    with True Some v v' show ?thesis
      by (cases r) (simp_all add: insurer_block_def)
  qed
qed

lemma validateStep_fst: "fst (validateStep e cs s m) = fst (validateStep e cs s m')"
proof -
  let ?L1 = "\<lambda>m. validate_each e cs (map (getElementById cs) (requiredByStep s)) (True, None) m"
  obtain r1 m1 where p1: "?L1 m = (r1, m1)" by (cases "?L1 m")
  obtain r1' m1' where p1': "?L1 m' = (r1', m1')" by (cases "?L1 m'")
  from p1 p1'
    validate_each_fst [of e cs "map (getElementById cs) (requiredByStep s)" "(True, None)" m m']
  have r1: "r1' = r1" by simp
  show ?thesis
  proof (cases r1)
    case (Inl x)
    with p1 p1' r1 show ?thesis by (simp add: validateStep_def Let_def)
  next
    case (Inr acc1)
    obtain r2 m2 where p2: "insurer_block e cs s acc1 m1 = (r2, m2)"
      by (cases "insurer_block e cs s acc1 m1")
    obtain r2' m2' where p2': "insurer_block e cs s acc1 m1' = (r2', m2')"
      by (cases "insurer_block e cs s acc1 m1'")
    from p2 p2' insurer_block_fst [of e cs s acc1 m1 m1'] have r2: "r2' = r2" by simp
    show ?thesis
    proof (cases r2)
      case (Inl x)
      with p1 p1' r1 Inr p2 p2' r2 show ?thesis by (simp add: validateStep_def Let_def)
    next
      case acc2: (Inr acc2)
      show ?thesis
      proof (cases "controls_in cs (steps_at e s)")
        case None
        with p1 p1' r1 Inr p2 p2' r2 acc2 show ?thesis by (simp add: validateStep_def Let_def)
      next
        case (Some els)
        with p1 p1' r1 Inr p2 p2' r2 acc2
          validate_each_fst [of e cs "map Some (filter (optional_filter (requiredByStep s)) els)"
            acc2 m2 m2']
        show ?thesis by (simp add: validateStep_def Let_def)
      qed
    qed
  qed
qed

lemma validateStep_verdict: "fst (validateStep e cs s m) = step_verdict e cs s"
  unfolding step_verdict_def by (rule validateStep_fst)

subsection \<open>Clamping, and pages with every container\<close>

lemma clamp_fin: "clamp (Fin r) = Fin (min (max r 1) 4)"
  by (simp add: clamp_def totalSteps_def)

lemma steps_at_present: "all_steps e \<Longrightarrow> steps_at e s \<noteq> Null"
  by (auto simp: steps_at_def step_index_def all_steps_def split: option.splits if_splits)

lemma whole_selector: "\<not> bad_selector (Fin (of_int k))" "\<not> bad_selector (Fin (of_nat n))"
  by (simp_all add: bad_selector_def)

lemma goToStep_returns:
  "steps_at e (clamp n) \<noteq> Null \<Longrightarrow> \<not> bad_selector (clamp n) \<Longrightarrow>
     goToStep e n f an a =
       (None, persist e False
                ((if an then announcePolite e (step_message e (clamp n)) a else a)
                 \<lparr>step := clamp n\<rparr>))"
  by (simp add: goToStep_def Let_def clamp_def)

lemma goToStep_completes:
  "all_steps e \<Longrightarrow> \<not> bad_selector (clamp n) \<Longrightarrow>
     goToStep e n f an a =
       (None, persist e False
                ((if an then announcePolite e (step_message e (clamp n)) a else a)
                 \<lparr>step := clamp n\<rparr>))"
  by (simp add: goToStep_returns steps_at_present)

text \<open>\<open>goToStep\<close> leaves the step, or assigns the clamped target, which is then no fraction.\<close>

lemma goToStep_step:
  "step (snd (goToStep e n f an a)) = step a \<or>
   (step (snd (goToStep e n f an a)) = clamp n \<and> \<not> bad_selector (clamp n))"
  by (simp add: goToStep_def Let_def clamp_def persist_fields announcePolite_fields)

text \<open>A step that has a verdict has its container.\<close>

lemma verdict_needs_container:
  "steps_at e s = Null \<Longrightarrow> \<exists>x. step_verdict e cs s = Inl x"
  by (auto simp: step_verdict_def validateStep_def Let_def controls_in_def
      split: prod.splits sum.splits)

lemma step_valid_container: "step_valid e cs s \<Longrightarrow> steps_at e s \<noteq> Null"
  using verdict_needs_container [of e s cs] by (auto simp: step_valid_def)

lemma step_invalid_container: "step_invalid e cs s \<Longrightarrow> steps_at e s \<noteq> Null"
  using verdict_needs_container [of e s cs] by (auto simp: step_invalid_def)

subsection \<open>Assigning the properties of an object\<close>

lemma map_of_fold_update:
  "map_of (fold (\<lambda>(k, v) d. AList.update k v d) kvs d) = map_of d ++ map_of (rev kvs)"
proof (induction kvs arbitrary: d)
  case Nil
  then show ?case by simp
next
  case (Cons kv kvs)
  obtain k v where kv: "kv = (k, v)" by (cases kv)
  have "map_of (fold (\<lambda>(k, v) d. AList.update k v d) (kv # kvs) d)
        = map_of (AList.update k v d) ++ map_of (rev kvs)"
    using Cons.IH [of "AList.update k v d"] kv by simp
  also have "\<dots> = (map_of d)(k \<mapsto> v) ++ map_of (rev kvs)"
    by (simp add: update_conv')
  also have "\<dots> = map_of d ++ map_of (rev (kv # kvs))"
    using kv by (simp add: map_add_upd_left fun_eq_iff map_add_def split: option.splits)
  finally show ?case .
qed

lemma object_assign_obj:
  "''__proto__'' \<notin> fst ` set kvs \<Longrightarrow>
     object_assign d (JObj kvs) = fold (\<lambda>(k, v) d. AList.update k v d) kvs d"
proof -
  assume a: "''__proto__'' \<notin> fst ` set kvs"
  have "fold (\<lambda>(k, v) d. if k = ''__proto__'' then d else AList.update k v d) kvs d
        = fold (\<lambda>(k, v) d. AList.update k v d) kvs d"
    using a by (intro fold_cong) (force simp: fun_eq_iff)+
  then show ?thesis by (simp add: object_assign_def)
qed

text \<open>Assigning a list with the same keys in the same order replaces every value.\<close>

lemma fold_update_skip:
  "k \<notin> fst ` set kvs \<Longrightarrow>
     fold (\<lambda>(k, v) d. AList.update k v d) kvs ((k, v) # d)
       = (k, v) # fold (\<lambda>(k, v) d. AList.update k v d) kvs d"
proof (induction kvs arbitrary: d)
  case Nil
  then show ?case by simp
next
  case (Cons kv kvs)
  obtain k' v' where kv: "kv = (k', v')" by (cases kv)
  with Cons.prems have ne: "k' \<noteq> k" and rest: "k \<notin> fst ` set kvs" by auto
  from kv ne Cons.IH [OF rest, of "AList.update k' v' d"] show ?case by simp
qed

lemma fold_update_same_keys:
  "map fst d = map fst kvs \<Longrightarrow> distinct (map fst kvs) \<Longrightarrow>
     fold (\<lambda>(k, v) d. AList.update k v d) kvs d = kvs"
proof (induction kvs arbitrary: d)
  case Nil
  then show ?case by simp
next
  case (Cons kv kvs)
  obtain k v where kv: "kv = (k, v)" by (cases kv)
  from Cons.prems(1) kv obtain w d' where d: "d = (k, w) # d'" and keys: "map fst d' = map fst kvs"
    by (cases d) auto
  from Cons.prems(2) kv have nk: "k \<notin> fst ` set kvs" and dist: "distinct (map fst kvs)"
    by auto
  have "fold (\<lambda>(k, v) d. AList.update k v d) (kv # kvs) d
        = fold (\<lambda>(k, v) d. AList.update k v d) kvs ((k, v) # d')"
    using kv d by simp
  also have "\<dots> = (k, v) # fold (\<lambda>(k, v) d. AList.update k v d) kvs d'"
    by (rule fold_update_skip [OF nk])
  also have "\<dots> = (k, v) # kvs" using Cons.IH [OF keys dist] by simp
  finally show ?case using kv by simp
qed

lemma data0_keys: "map fst data0 = field_names"
  by (simp add: data0_def comp_def)

lemma field_names_distinct: "distinct field_names"
  by (simp add: field_names_def)

lemma no_proto: "''__proto__'' \<notin> set field_names"
  by (simp add: field_names_def)

lemma assign_defaults_map:
  "k \<in> set field_names \<Longrightarrow> map_of (object_assign d (JObj data0)) k = map_of data0 k"
proof -
  assume k: "k \<in> set field_names"
  have np: "''__proto__'' \<notin> fst ` set data0"
    using no_proto data0_keys by (metis list.set_map)
  have "distinct (map fst (rev data0))"
    using field_names_distinct data0_keys by (simp add: rev_map [symmetric])
  moreover have "k \<in> fst ` set data0" using k data0_keys by (metis list.set_map)
  ultimately have "map_of (rev data0) k = map_of data0 k"
    using field_names_distinct data0_keys
    by (metis distinct_rev map_of_inject_set rev_map set_rev)
  moreover have "map_of (rev data0) k \<noteq> None"
    using \<open>k \<in> fst ` set data0\<close> by (simp add: map_of_eq_None_iff)
  ultimately show ?thesis
    by (auto simp: object_assign_obj [OF np] map_of_fold_update map_add_def split: option.splits)
qed

lemma assign_defaults_list:
  "map fst d = field_names \<Longrightarrow> object_assign d (JObj data0) = data0"
proof -
  assume d: "map fst d = field_names"
  have np: "''__proto__'' \<notin> fst ` set data0"
    using no_proto data0_keys by (metis list.set_map)
  show ?thesis
    using fold_update_same_keys [of d data0] d data0_keys field_names_distinct
    by (simp add: object_assign_obj [OF np])
qed

subsection \<open>What the restore assigns\<close>

lemma restore_data:
  "storage a = Text saved \<Longrightarrow> truthy saved \<Longrightarrow>
   toNumber e (or_else (get_prop saved ''step'') (JNum 1)) = Inr n \<Longrightarrow>
   data (snd (restoreFromStorage e a)) =
     object_assign (data a) (or_else (get_prop saved ''data'') (JObj []))"
  by (simp add: restoreFromStorage_def loadState_def Let_def)

lemma restore_no_snapshot:
  "storage a = NoItem \<or> storage a = BadText \<or> (\<exists>j. storage a = Text j \<and> \<not> truthy j) \<Longrightarrow>
     restoreFromStorage e a = (None, a)"
  by (auto simp: restoreFromStorage_def loadState_def)

subsection \<open>Trimming, and typing into a control\<close>

lemma dropWhile_fixed: "xs \<noteq> [] \<Longrightarrow> \<not> P (hd xs) \<Longrightarrow> dropWhile P xs = xs"
  by (cases xs) simp_all

lemma trim_idem: "trim (trim s) = trim s"
proof -
  define t where "t = dropWhile isWs s"
  define u where "u = dropWhile isWs (rev t)"
  have ts: "trim s = rev u" by (simp add: trim_def t_def u_def)
  show ?thesis
  proof (cases "u = []")
    case True
    with ts have "trim s = []" by simp
    moreover have "trim [] = []" by (simp add: trim_def)
    ultimately show ?thesis by simp
  next
    case False
    have hu: "\<not> isWs (hd u)" using False unfolding u_def by (simp add: hd_dropWhile)
    from False have tne: "t \<noteq> []" unfolding u_def by auto
    then have ht: "\<not> isWs (hd t)" unfolding t_def by (simp add: hd_dropWhile)
    obtain ws where ws: "rev t = ws @ u"
      unfolding u_def by (metis takeWhile_dropWhile_id)
    then have "t = rev u @ rev ws" by (metis rev_append rev_rev_ident)
    with False have "hd (rev u) = hd t" by simp
    with ht False have "dropWhile isWs (rev u) = rev u"
      by (simp add: dropWhile_fixed)
    moreover have "dropWhile isWs u = u" using False hu by (simp add: dropWhile_fixed)
    ultimately have "trim (rev u) = rev u" by (simp add: trim_def)
    with ts show ?thesis by simp
  qed
qed

lemma isNonEmpty_trim: "isNonEmpty (trim v) = (trim v \<noteq> [])"
  by (simp add: isNonEmpty_def trim_idem)

lemma getElementById_type_into_other:
  "j \<noteq> i \<Longrightarrow> getElementById (type_into i t cs) j = getElementById cs j"
  by (induction cs) (auto simp: getElementById_def)

lemma getElementById_type_into_same:
  "getElementById (type_into i t cs) i
     = map_option (\<lambda>el. el\<lparr>el_value := t\<rparr>) (getElementById cs i)"
  by (induction cs) (auto simp: getElementById_def)

lemma getElementById_id: "getElementById cs i = Some el \<Longrightarrow> el_id el = i"
  by (induction cs) (auto simp: getElementById_def split: if_splits)

text \<open>\<open>Next\<close> and \<open>Back\<close> leave the step, or assign the clamped target.\<close>

lemma handleNext_step:
  "step (snd (handleNext e h a)) = step a \<or>
   (step (snd (handleNext e h a))
      = clamp (case h of Some n \<Rightarrow> n | None \<Rightarrow> num_add (step a) 1) \<and>
    \<not> bad_selector (clamp (case h of Some n \<Rightarrow> n | None \<Rightarrow> num_add (step a) 1)))"
  by (auto simp: handleNext_def Let_def goToStep_def clamp_def persist_fields
        announcePolite_fields announceAssertive_fields
      split: prod.splits sum.splits option.splits if_splits)

lemma handleBack_step:
  "step (snd (handleBack e h a)) = step a \<or>
   (step (snd (handleBack e h a))
      = clamp (math_max (Fin 1) (case h of Some n \<Rightarrow> n | None \<Rightarrow> num_add (step a) (- 1))) \<and>
    \<not> bad_selector
        (clamp (math_max (Fin 1) (case h of Some n \<Rightarrow> n | None \<Rightarrow> num_add (step a) (- 1)))))"
  by (auto simp: handleBack_def Let_def goToStep_def clamp_def persist_fields
        announcePolite_fields
      split: prod.splits option.splits if_splits)

subsection \<open>A refused transition\<close>

lemma validate_one_verdict:
  "validate_one e cs el m = (Inr ok, m') \<Longrightarrow> check e cs el = Inr ok"
  by (auto simp: validate_one_def split: sum.splits)

lemma validateField_verdict:
  "validateField e cs elo m = (Inr ok, m') \<Longrightarrow>
     (case elo of None \<Rightarrow> ok | Some el \<Rightarrow> check e cs el = Inr ok)"
  by (auto simp: validateField_def split: option.splits if_splits prod.splits sum.splits
      dest: validate_one_verdict)

text \<open>A loop that returns has decided every element; its result is then determined.\<close>

lemma validate_each_result:
  "validate_each e cs elos (av, fi) m = (Inr (av', fi'), m') \<Longrightarrow>
     (\<forall>elo \<in> set elos. \<forall>el. elo = Some el \<longrightarrow> (\<exists>ok. check e cs el = Inr ok)) \<and>
     av' = (av \<and> (\<forall>elo \<in> set elos. passes e cs elo)) \<and>
     fi' = (if av then (case find (\<lambda>elo. \<not> passes e cs elo) elos of
                          None \<Rightarrow> fi | Some elo \<Rightarrow> elo)
            else fi)"
proof (induction elos arbitrary: av fi m)
  case Nil
  then show ?case by simp
next
  case (Cons elo rest)
  obtain r m1 where v: "validateField e cs elo m = (r, m1)"
    by (cases "validateField e cs elo m")
  show ?case
  proof (cases r)
    case (Inl x)
    with v Cons.prems show ?thesis by simp
  next
    case (Inr ok)
    with v have c: "case elo of None \<Rightarrow> ok | Some el \<Rightarrow> check e cs el = Inr ok"
      by (simp add: validateField_verdict)
    then have ok: "ok = passes e cs elo"
      by (cases elo) (auto simp: passes_def)
    from c have d: "\<forall>el. elo = Some el \<longrightarrow> (\<exists>ok. check e cs el = Inr ok)" by auto
    from v Inr Cons.prems have
      "validate_each e cs rest (av \<and> ok, if av \<and> \<not> ok then elo else fi) m1 = (Inr (av', fi'), m')"
      by simp
    from Cons.IH [OF this] ok d show ?thesis by auto
  qed
qed

lemma find_map_list: "find P (map f xs) = map_option f (find (\<lambda>x. P (f x)) xs)"
  by (induction xs) auto

lemma validateStep_refuses:
  assumes r: "validateStep e cs s m = (Inr (valid, fi), m')"
    and f: "\<exists>i \<in> set (requiredByStep s). fails e cs i"
  shows "\<not> valid \<and> fi = first_invalid e cs s \<and> fi \<noteq> None"
proof -
  let ?req = "requiredByStep s"
  obtain r1 m1 where p1: "validate_each e cs (map (getElementById cs) ?req) (True, None) m = (r1, m1)"
    by (cases "validate_each e cs (map (getElementById cs) ?req) (True, None) m")
  from r p1 obtain av1 fi1 where r1: "r1 = Inr (av1, fi1)"
    by (cases r1) (auto simp: validateStep_def Let_def)
  from validate_each_result [OF p1 [unfolded r1]]
  have dec: "\<forall>i \<in> set ?req. \<forall>el. getElementById cs i = Some el \<longrightarrow> (\<exists>ok. check e cs el = Inr ok)"
    and av1: "av1 = (\<forall>i \<in> set ?req. passes e cs (getElementById cs i))"
    and fi1: "fi1 = (case find (\<lambda>elo. \<not> passes e cs elo) (map (getElementById cs) ?req) of
                      None \<Rightarrow> None | Some elo \<Rightarrow> elo)"
    by auto
  have eq: "(\<not> passes e cs (getElementById cs i)) = fails e cs i" if "i \<in> set ?req" for i
  proof (cases "getElementById cs i")
    case None
    then show ?thesis by (simp add: passes_def fails_def)
  next
    case (Some el)
    with dec that obtain ok where "check e cs el = Inr ok" by blast
    with Some show ?thesis by (cases ok) (simp_all add: passes_def fails_def)
  qed
  from f eq av1 have nav: "\<not> av1" by auto
  have "find (\<lambda>i. \<not> passes e cs (getElementById cs i)) ?req = find (fails e cs) ?req"
    by (rule find_cong) (auto simp: eq)
  with fi1 have fi1': "fi1 = first_invalid e cs s"
    by (simp add: find_map_list first_invalid_def split: option.splits)
  from f obtain i where i: "find (fails e cs) ?req = Some i" "fails e cs i"
    by (metis find_None_iff2 find_Some_iff not_Some_eq)
  then have some: "first_invalid e cs s \<noteq> None"
    by (auto simp: first_invalid_def fails_def split: option.splits)
  obtain r2 m2 where p2: "insurer_block e cs s (av1, fi1) m1 = (r2, m2)"
    by (cases "insurer_block e cs s (av1, fi1) m1")
  from r p1 r1 p2 obtain acc2 where r2: "r2 = Inr acc2"
    by (cases r2) (auto simp: validateStep_def Let_def)
  from p2 r2 nav fi1' some have acc2: "acc2 = (False, fi1)"
    by (auto simp: insurer_block_def split: if_splits option.splits prod.splits sum.splits)
  from r p1 r1 p2 r2 acc2 obtain els where
    p3: "validate_each e cs (map Some (filter (optional_filter ?req) els)) (False, fi1) m2
           = (Inr (valid, fi), m')"
    by (auto simp: validateStep_def Let_def split: option.splits)
  from validate_each_result [OF p3] have "\<not> valid" "fi = fi1" by auto
  with fi1' some show ?thesis by simp
qed

text \<open>With \<open>#policyNumber\<close> on the page no check throws, and no validation does.\<close>

lemma check_total:
  "getElementById cs ''policyNumber'' \<noteq> None \<Longrightarrow> \<exists>ok. check e cs el = Inr ok"
  by (auto simp: check_def Let_def split: option.splits)

lemma validate_one_total:
  "getElementById cs ''policyNumber'' \<noteq> None \<Longrightarrow>
     \<exists>ok. validate_one e cs el m = (Inr ok, set_mark (el_id el) ok m)"
  using check_total [of cs e el] by (auto simp: validate_one_def)

lemma validateField_total:
  assumes "getElementById cs ''policyNumber'' \<noteq> None"
  shows "\<exists>ok m'. validateField e cs elo m = (Inr ok, m')"
proof (cases elo)
  case None
  then show ?thesis by (auto simp: validateField_def)
next
  case (Some el)
  have one: "\<exists>ok m'. validate_one e cs x n = (Inr ok, m')" for x n
    using validate_one_total [OF assms, of e x n] by blast
  show ?thesis
  proof (cases "el_id el = ''policyNumber''")
    case False
    with Some one [of el m] show ?thesis by (simp add: validateField_def)
  next
    case True
    show ?thesis
    proof (cases "getElementById cs ''policyConfirm''")
      case None
      with Some True one [of el m] show ?thesis by (simp add: validateField_def)
    next
      case (Some c)
      from one [of c m] obtain ok1 m1 where c1: "validate_one e cs c m = (Inr ok1, m1)" by blast
      from one [of el m1] obtain ok2 m2 where c2: "validate_one e cs el m1 = (Inr ok2, m2)"
        by blast
      from \<open>elo = Some el\<close> True Some c1 c2 one [of el m] show ?thesis
        by (simp add: validateField_def)
    qed
  qed
qed

lemma validate_each_total:
  assumes "getElementById cs ''policyNumber'' \<noteq> None"
  shows "\<exists>acc' m'. validate_each e cs elos acc m = (Inr acc', m')"
proof (induction elos arbitrary: acc m)
  case Nil
  then show ?case by simp
next
  case (Cons elo rest)
  obtain av fi where acc: "acc = (av, fi)" by (cases acc)
  from validateField_total [OF assms, of e elo m]
  obtain ok m1 where v: "validateField e cs elo m = (Inr ok, m1)" by blast
  from Cons.IH [of "(av \<and> ok, if av \<and> \<not> ok then elo else fi)" m1] acc v
  show ?case by simp
qed

lemma insurer_block_total:
  assumes "getElementById cs ''policyNumber'' \<noteq> None"
  shows "\<exists>acc' m'. insurer_block e cs s acc m = (Inr acc', m')"
proof (cases "s = Fin 2")
  case False
  then show ?thesis by (simp add: insurer_block_def)
next
  case True
  show ?thesis
  proof (cases "getElementById cs ''insurerPhone''")
    case None
    with True show ?thesis by (simp add: insurer_block_def)
  next
    case (Some ip)
    from validateField_total [OF assms, of e "Some ip" m]
    obtain ok m1 where "validateField e cs (Some ip) m = (Inr ok, m1)" by blast
    with True Some show ?thesis by (auto simp: insurer_block_def)
  qed
qed

lemma validateStep_total:
  assumes pn: "getElementById cs ''policyNumber'' \<noteq> None"
    and st: "steps_at e s \<noteq> Null"
  shows "\<exists>valid fi m'. validateStep e cs s m = (Inr (valid, fi), m')"
proof -
  from validate_each_total [OF pn]
  obtain acc1 m1 where
    p1: "validate_each e cs (map (getElementById cs) (requiredByStep s)) (True, None) m
          = (Inr acc1, m1)" by blast
  from insurer_block_total [OF pn]
  obtain acc2 m2 where p2: "insurer_block e cs s acc1 m1 = (Inr acc2, m2)" by blast
  from st obtain els where c: "controls_in cs (steps_at e s) = Some els"
    by (cases "steps_at e s") (simp_all add: controls_in_def)
  from validate_each_total [OF pn]
  obtain acc3 m3 where
    p3: "validate_each e cs (map Some (filter (optional_filter (requiredByStep s)) els)) acc2 m2
          = (Inr acc3, m3)" by blast
  obtain valid fi where "acc3 = (valid, fi)" by (cases acc3)
  with p1 p2 c p3 show ?thesis by (simp add: validateStep_def Let_def)
qed

text \<open>
  Claim C1. When a required field of the current step fails validation, \<open>Next\<close> leaves
  \<open>state.step\<close>, \<open>state.data\<close> and the storage entry as they are, with or without a target
  hint on the button; unless the handler throws it refuses the transition and focuses the
  first failing required field, and it does not throw on a page that has \<open>#policyNumber\<close>
  and the container of the step.
\<close>

theorem C1_next_refused_on_invalid_step:
  assumes "\<exists>i \<in> set (requiredByStep (step a)). fails e (controls a) i"
  shows
    "step (snd (handleNext e h a)) = step a \<and>
     storage (snd (handleNext e h a)) = storage a \<and>
     data (snd (handleNext e h a)) = data a \<and>
     ((\<exists>x. fst (handleNext e h a) = Raised x) \<or>
      fst (handleNext e h a) = Refused (first_invalid e (controls a) (step a))) \<and>
     first_invalid e (controls a) (step a) \<noteq> None \<and>
     (getElementById (controls a) ''policyNumber'' \<noteq> None \<and> steps_at e (step a) \<noteq> Null \<longrightarrow>
        fst (handleNext e h a) = Refused (first_invalid e (controls a) (step a)))"
proof -
  obtain r m where v: "validateStep e (controls a) (step a) (marks a) = (r, m)"
    by (cases "validateStep e (controls a) (step a) (marks a)")
  from assms obtain i where i: "find (fails e (controls a)) (requiredByStep (step a)) = Some i"
      "fails e (controls a) i"
    by (metis find_None_iff2 find_Some_iff not_Some_eq)
  then have some: "first_invalid e (controls a) (step a) \<noteq> None"
    by (auto simp: first_invalid_def fails_def split: option.splits)
  have tot: "\<exists>valid fi. r = Inr (valid, fi)"
    if "getElementById (controls a) ''policyNumber'' \<noteq> None" "steps_at e (step a) \<noteq> Null"
    using validateStep_total [OF that, of "marks a"] v by auto
  show ?thesis
  proof (cases r)
    case (Inl x)
    have "\<not> (getElementById (controls a) ''policyNumber'' \<noteq> None \<and>
             steps_at e (step a) \<noteq> Null)"
      using tot Inl by blast
    moreover from v Inl have "handleNext e h a = (Raised x, a\<lparr>marks := m\<rparr>)"
      by (simp add: handleNext_def Let_def)
    ultimately show ?thesis using some by simp
  next
    case (Inr vf)
    obtain valid fi where vf: "vf = (valid, fi)" by (cases vf)
    from validateStep_refuses [OF v [unfolded Inr vf] assms]
    have "\<not> valid" "fi = first_invalid e (controls a) (step a)" "fi \<noteq> None" by auto
    with v Inr vf show ?thesis
      by (simp add: handleNext_def Let_def announceAssertive_fields)
  qed
qed

text \<open>
  Claim C1, an instance: on step 1 of the sample form without a first name, \<open>Next\<close> stays on
  step 1, writes nothing and focuses \<open>#firstName\<close>.
\<close>

theorem C1_next_refused_on_invalid_step_witness:
  "(\<exists>i \<in> set (requiredByStep (step (initial form_bad NoItem False))).
      fails env0 (controls (initial form_bad NoItem False)) i) \<and>
   getElementById (controls (initial form_bad NoItem False)) ''policyNumber'' \<noteq> None \<and>
   steps_at env0 (step (initial form_bad NoItem False)) \<noteq> Null \<and>
   step (snd (handleNext env0 None (initial form_bad NoItem False))) = Fin 1 \<and>
   storage (snd (handleNext env0 None (initial form_bad NoItem False))) = NoItem \<and>
   data (snd (handleNext env0 None (initial form_bad NoItem False))) = data0 \<and>
   fst (handleNext env0 None (initial form_bad NoItem False)) =
     Refused (Some (ctl ''firstName'' [] 1))"
proof -
  let ?a = "initial form_bad NoItem False"
  have h: "\<exists>i \<in> set (requiredByStep (step ?a)). fails env0 (controls ?a) i"
    by code_simp
  have pn: "getElementById (controls ?a) ''policyNumber'' \<noteq> None" by code_simp
  have st: "steps_at env0 (step ?a) \<noteq> Null" by code_simp
  have fi: "first_invalid env0 (controls ?a) (step ?a) = Some (ctl ''firstName'' [] 1)"
    by code_simp
  have i: "step ?a = Fin 1" "storage ?a = NoItem" "data ?a = data0"
    by (simp_all add: initial_def)
  from C1_next_refused_on_invalid_step [OF h, of None] pn st fi i h
  show ?thesis by simp
qed

subsection \<open>Submit\<close>

lemma validateStep_valid:
  "step_valid e cs s \<Longrightarrow> \<exists>fi m'. validateStep e cs s m = (Inr (True, fi), m')"
proof -
  assume v: "step_valid e cs s"
  obtain r m' where p: "validateStep e cs s m = (r, m')" by (cases "validateStep e cs s m")
  with validateStep_verdict [of e cs s m] have "step_verdict e cs s = r" by simp
  with v p show ?thesis by (auto simp: step_valid_def split: sum.splits)
qed

lemma validateStep_invalid:
  "step_invalid e cs s \<Longrightarrow> \<exists>fi m'. validateStep e cs s m = (Inr (False, fi), m')"
proof -
  assume v: "step_invalid e cs s"
  obtain r m' where p: "validateStep e cs s m = (r, m')" by (cases "validateStep e cs s m")
  with validateStep_verdict [of e cs s m] have "step_verdict e cs s = r" by simp
  with v p show ?thesis by (auto simp: step_invalid_def split: sum.splits)
qed

lemma submit_loop_valid:
  "\<forall>s \<in> set ss. step_valid e (controls a) (Fin (of_nat s)) \<Longrightarrow>
     \<exists>m. submit_loop e ss a = (Completed, a\<lparr>marks := m\<rparr>)"
proof (induction ss arbitrary: a)
  case Nil
  have "a = a\<lparr>marks := marks a\<rparr>" by simp
  then show ?case by (metis submit_loop.simps(1))
next
  case (Cons s ss)
  from Cons.prems validateStep_valid [of e "controls a" "Fin (of_nat s)" "marks a"]
  obtain fi m where v: "validateStep e (controls a) (Fin (of_nat s)) (marks a) = (Inr (True, fi), m)"
    by auto
  from Cons.prems have "\<forall>s \<in> set ss. step_valid e (controls (a\<lparr>marks := m\<rparr>)) (Fin (of_nat s))"
    by simp
  from Cons.IH [OF this] obtain m' where
    "submit_loop e ss (a\<lparr>marks := m\<rparr>) = (Completed, a\<lparr>marks := m, marks := m'\<rparr>)" by blast
  with v show ?case by auto
qed

lemma clamp_step_number: "1 \<le> k \<Longrightarrow> k \<le> 4 \<Longrightarrow> clamp (Fin (of_nat k)) = Fin (of_nat k)"
  by (simp add: clamp_fin)

lemma submit_loop_redirect:
  "\<forall>s \<in> set ss. 1 \<le> s \<and> s \<le> 4 \<Longrightarrow>
     find (\<lambda>s. \<not> step_valid e (controls a) (Fin (of_nat s))) ss = Some k \<Longrightarrow>
     step_invalid e (controls a) (Fin (of_nat k)) \<Longrightarrow>
     \<exists>fi m. submit_loop e ss a =
       (Refused fi,
        announceAssertive e ''Please fix the errors in this step.''
          (persist e False
             ((announcePolite e (step_message e (clamp (Fin (of_nat k)))) (a\<lparr>marks := m\<rparr>))
              \<lparr>step := clamp (Fin (of_nat k))\<rparr>)))"
proof (induction ss arbitrary: a)
  case Nil
  then show ?case by simp
next
  case (Cons s ss)
  show ?case
  proof (cases "step_valid e (controls a) (Fin (of_nat s))")
    case True
    from validateStep_valid [OF True, of "marks a"]
    obtain fi m where v: "validateStep e (controls a) (Fin (of_nat s)) (marks a) = (Inr (True, fi), m)"
      by auto
    from True Cons.prems have
      "\<forall>s \<in> set ss. 1 \<le> s \<and> s \<le> 4"
      "find (\<lambda>s. \<not> step_valid e (controls (a\<lparr>marks := m\<rparr>)) (Fin (of_nat s))) ss = Some k"
      "step_invalid e (controls (a\<lparr>marks := m\<rparr>)) (Fin (of_nat k))" by simp_all
    from Cons.IH [OF this] v show ?thesis by auto
  next
    case False
    with Cons.prems have k: "k = s" by simp
    with Cons.prems validateStep_invalid [of e "controls a" "Fin (of_nat s)" "marks a"]
    obtain fi m where v: "validateStep e (controls a) (Fin (of_nat s)) (marks a) = (Inr (False, fi), m)"
      by auto
    moreover from k Cons.prems(1) have ck: "clamp (Fin (of_nat k)) = Fin (of_nat k)"
      by (simp add: clamp_step_number)
    moreover have "steps_at e (clamp (Fin (of_nat k))) \<noteq> Null"
      using Cons.prems(3) ck by (simp add: step_invalid_container)
    moreover have "\<not> bad_selector (clamp (Fin (of_nat k)))"
      using ck by (simp add: whole_selector)
    ultimately show ?thesis using k by (auto simp: goToStep_returns)
  qed
qed

text \<open>
  Claim C2, as amended. \<open>Submit\<close> from a step that itself validates: when one of the
  steps 1 to 3 fails validation and the steps before it validate, the step becomes that
  step, \<open>state.data\<close> and the controls stay as they are, no completion is scheduled and the
  storage entry is not removed, it is written again with the new step when the storage
  accepts it; when the steps 1 to 3 validate, the completion is scheduled, the step,
  \<open>state.data\<close> and the storage entry stay as they are, and the completion, in whatever
  state it then finds, runs to its end, sets the step to 1 and every field of \<open>state.data\<close>
  to its empty default.
\<close>

theorem C2_submit_redirects_or_resets:
  assumes gate: "step_valid e (controls a) (step a)"
  shows
    "(find (\<lambda>s. \<not> step_valid e (controls a) (Fin (of_nat s))) [1, 2, 3] = Some k \<and>
      step_invalid e (controls a) (Fin (of_nat k)) \<longrightarrow>
        (\<exists>fi. fst (handleSubmit e a) = Refused fi) \<and>
        step (snd (handleSubmit e a)) = Fin (of_nat k) \<and>
        data (snd (handleSubmit e a)) = data a \<and>
        controls (snd (handleSubmit e a)) = controls a \<and>
        submitting (snd (handleSubmit e a)) = submitting a \<and>
        storage (snd (handleSubmit e a)) =
          (if can_store e then Text (snapshot (a\<lparr>step := Fin (of_nat k)\<rparr>)) else storage a)) \<and>
     ((\<forall>s \<in> set [1, 2, 3]. step_valid e (controls a) (Fin (of_nat s))) \<longrightarrow>
        fst (handleSubmit e a) = Completed \<and>
        submitting (snd (handleSubmit e a)) \<and>
        step (snd (handleSubmit e a)) = step a \<and>
        data (snd (handleSubmit e a)) = data a \<and>
        storage (snd (handleSubmit e a)) = storage a \<and>
        fst (submitted e b) = Completed \<and>
        step (snd (submitted e b)) = Fin 1 \<and>
        \<not> submitting (snd (submitted e b)) \<and>
        (\<forall>f \<in> set field_names. map_of (data (snd (submitted e b))) f = map_of data0 f) \<and>
        (map fst (data b) = field_names \<longrightarrow> data (snd (submitted e b)) = data0))"
proof -
  from validateStep_valid [OF gate, of "marks a"]
  obtain fi0 m0 where g: "validateStep e (controls a) (step a) (marks a) = (Inr (True, fi0), m0)"
    by auto
  have hs: "handleSubmit e a =
      (case submit_loop e [1, 2, 3] (a\<lparr>marks := m0\<rparr>) of
         (Completed, a1) \<Rightarrow> (Completed, a1\<lparr>submitting := True\<rparr>)
       | r \<Rightarrow> r)"
    using g by (simp add: handleSubmit_def del: submit_loop.simps)
  have p1: "(\<exists>fi. fst (handleSubmit e a) = Refused fi) \<and>
        step (snd (handleSubmit e a)) = Fin (of_nat k) \<and>
        data (snd (handleSubmit e a)) = data a \<and>
        controls (snd (handleSubmit e a)) = controls a \<and>
        submitting (snd (handleSubmit e a)) = submitting a \<and>
        storage (snd (handleSubmit e a)) =
          (if can_store e then Text (snapshot (a\<lparr>step := Fin (of_nat k)\<rparr>)) else storage a)"
    if f: "find (\<lambda>s. \<not> step_valid e (controls a) (Fin (of_nat s))) [1, 2, 3] = Some k"
      and inv: "step_invalid e (controls a) (Fin (of_nat k))"
  proof -
    from f have "k \<in> set [1, 2, 3]" by (metis find_Some_iff nth_mem)
    then have ck: "clamp (Fin (of_nat k)) = Fin (of_nat k)"
      by (auto simp: clamp_fin)
    from f inv have
      "find (\<lambda>s. \<not> step_valid e (controls (a\<lparr>marks := m0\<rparr>)) (Fin (of_nat s))) [1, 2, 3] = Some k"
      "step_invalid e (controls (a\<lparr>marks := m0\<rparr>)) (Fin (of_nat k))" by simp_all
    moreover have "\<forall>s \<in> set [1, 2, 3 :: nat]. 1 \<le> s \<and> s \<le> 4" by simp
    ultimately obtain fi m where
      l: "submit_loop e [1, 2, 3] (a\<lparr>marks := m0\<rparr>) =
       (Refused fi,
        announceAssertive e ''Please fix the errors in this step.''
          (persist e False
             ((announcePolite e (step_message e (clamp (Fin (of_nat k)))) (a\<lparr>marks := m0, marks := m\<rparr>))
              \<lparr>step := clamp (Fin (of_nat k))\<rparr>)))"
      using submit_loop_redirect [of "[1, 2, 3]" e "a\<lparr>marks := m0\<rparr>" k] by auto
    show ?thesis
      unfolding hs l
      by (simp add: ck announceAssertive_def announcePolite_def persist_def saveState_def
          snapshot_def)
  qed
  have p2: "fst (handleSubmit e a) = Completed \<and>
        submitting (snd (handleSubmit e a)) \<and>
        step (snd (handleSubmit e a)) = step a \<and>
        data (snd (handleSubmit e a)) = data a \<and>
        storage (snd (handleSubmit e a)) = storage a"
    if ok: "\<forall>s \<in> set [1, 2, 3]. step_valid e (controls a) (Fin (of_nat s))"
  proof -
    from ok have "\<forall>s \<in> set [1, 2, 3]. step_valid e (controls (a\<lparr>marks := m0\<rparr>)) (Fin (of_nat s))"
      by simp
    from submit_loop_valid [OF this] obtain m where
      l: "submit_loop e [1, 2, 3] (a\<lparr>marks := m0\<rparr>) = (Completed, a\<lparr>marks := m0, marks := m\<rparr>)"
      by blast
    show ?thesis unfolding hs l by simp
  qed
  define b3 where "b3 = b\<lparr>submitting := False, storage := NoItem,
    controls := form_reset (controls b), data := object_assign (data b) (JObj data0)\<rparr>"
  have chips: "\<not> renderAllergyChips e (data b3)"
  proof -
    have "map_of (data b3) ''allergies'' = map_of data0 ''allergies''"
      unfolding b3_def using assign_defaults_map [of "''allergies''" "data b"]
      by (simp add: field_names_def)
    also have "\<dots> = Some (JArr [])" by (simp add: data0_def field_names_def)
    finally show ?thesis by (simp add: renderAllergyChips_def)
  qed
  have sb: "submitted e b =
      (Completed,
       announcePolite e ''Form submitted and progress cleared.''
         (persist e False
            ((announcePolite e (step_message e (clamp (Fin 1))) b3)\<lparr>step := clamp (Fin 1)\<rparr>)))"
    if ok: "\<forall>s \<in> set [1, 2, 3]. step_valid e (controls a) (Fin (of_nat s))"
  proof -
    have d3: "data b3 = object_assign (data b) (JObj data0)" by (simp add: b3_def)
    from ok have "step_valid e (controls a) (Fin 1)" by simp
    then have "steps_at e (clamp (Fin 1)) \<noteq> Null"
      by (simp add: clamp_fin step_valid_container)
    moreover have "\<not> bad_selector (clamp (Fin 1))"
      using whole_selector(1) [of 1] by (simp add: clamp_fin)
    ultimately show ?thesis
      using chips unfolding d3
      by (simp add: submitted_def Let_def clearState_def b3_def goToStep_returns)
  qed
  have p3: "fst (submitted e b) = Completed \<and>
        step (snd (submitted e b)) = Fin 1 \<and>
        \<not> submitting (snd (submitted e b)) \<and>
        (\<forall>f \<in> set field_names. map_of (data (snd (submitted e b))) f = map_of data0 f) \<and>
        (map fst (data b) = field_names \<longrightarrow> data (snd (submitted e b)) = data0)"
    if ok: "\<forall>s \<in> set [1, 2, 3]. step_valid e (controls a) (Fin (of_nat s))"
  proof -
    note sb = sb [OF ok]
    have q3: "fst (submitted e b) = Completed" by (simp add: sb)
    have q4: "step (snd (submitted e b)) = Fin 1"
      by (simp add: sb announcePolite_fields persist_fields clamp_fin)
    have dt: "data (snd (submitted e b)) = object_assign (data b) (JObj data0)"
      by (simp add: sb announcePolite_fields persist_fields b3_def)
    have q5: "\<not> submitting (snd (submitted e b))"
      by (simp add: sb announcePolite_def persist_def saveState_def b3_def)
    have q6: "\<forall>f \<in> set field_names. map_of (data (snd (submitted e b))) f = map_of data0 f"
      by (simp add: dt assign_defaults_map)
    have q7: "map fst (data b) = field_names \<longrightarrow> data (snd (submitted e b)) = data0"
      by (simp add: dt assign_defaults_list)
    from q3 q4 q5 q6 q7 show ?thesis by blast
  qed
  from p1 p2 p3 show ?thesis by blast
qed

text \<open>
  Claim C2, two instances on the sample page, from the review step: with a policy number
  that is too short \<open>Submit\<close> leads to step 2 and keeps the data; with the valid form it
  schedules the completion, which ends on step 1 with the empty defaults.
\<close>

theorem C2_submit_redirects_or_resets_witness:
  "step_valid env0 (controls (at_review form_policy_bad)) (step (at_review form_policy_bad)) \<and>
   find (\<lambda>s. \<not> step_valid env0 (controls (at_review form_policy_bad)) (Fin (of_nat s))) [1, 2, 3]
     = Some 2 \<and>
   step_invalid env0 (controls (at_review form_policy_bad)) (Fin (of_nat 2)) \<and>
   step (snd (handleSubmit env0 (at_review form_policy_bad))) = Fin 2 \<and>
   data (snd (handleSubmit env0 (at_review form_policy_bad))) = data0 \<and>
   storage (snd (handleSubmit env0 (at_review form_policy_bad))) \<noteq> NoItem \<and>
   step_valid env0 (controls (at_review form_ok)) (step (at_review form_ok)) \<and>
   step_valid env0 (controls (at_review form_ok)) (Fin 1) \<and>
   step_valid env0 (controls (at_review form_ok)) (Fin 2) \<and>
   step_valid env0 (controls (at_review form_ok)) (Fin 3) \<and>
   fst (handleSubmit env0 (at_review form_ok)) = Completed \<and>
   submitting (snd (handleSubmit env0 (at_review form_ok))) \<and>
   step (snd (handleSubmit env0 (at_review form_ok))) = Fin 4 \<and>
   fst (submitted env0 (snd (handleSubmit env0 (at_review form_ok)))) = Completed \<and>
   step (snd (submitted env0 (snd (handleSubmit env0 (at_review form_ok))))) = Fin 1 \<and>
   data (snd (submitted env0 (snd (handleSubmit env0 (at_review form_ok))))) = data0 \<and>
   map_of (data (snd (submitted env0 (snd (handleSubmit env0 (at_review form_ok))))))
     ''firstName'' = Some (JStr [])"
proof -
  let ?r = "at_review form_policy_bad" and ?g = "at_review form_ok"
  have g1: "step_valid env0 (controls ?r) (step ?r)" by code_simp
  have f1: "find (\<lambda>s. \<not> step_valid env0 (controls ?r) (Fin (of_nat s))) [1, 2, 3] = Some 2"
    by code_simp
  have i1: "step_invalid env0 (controls ?r) (Fin (of_nat 2))" by code_simp
  have g2: "step_valid env0 (controls ?g) (step ?g)" by code_simp
  have v1: "step_valid env0 (controls ?g) (Fin 1)" "step_valid env0 (controls ?g) (Fin 2)"
    "step_valid env0 (controls ?g) (Fin 3)" by code_simp+
  then have v2: "\<forall>s \<in> set [1, 2, 3]. step_valid env0 (controls ?g) (Fin (of_nat s))" by simp
  have d: "data ?r = data0" "data ?g = data0" "step ?g = Fin 4" "can_store env0"
    "map fst (data (snd (handleSubmit env0 ?g))) = field_names"
    "''firstName'' \<in> set field_names"
    "map_of data0 ''firstName'' = Some (JStr [])"
    by code_simp+
  note r1 = C2_submit_redirects_or_resets [OF g1, of 2 "snd (handleSubmit env0 ?g)"]
  note r2 = C2_submit_redirects_or_resets [OF g2, of 2 "snd (handleSubmit env0 ?g)"]
  from r1 f1 i1 have a: "step (snd (handleSubmit env0 ?r)) = Fin (of_nat 2)"
      "data (snd (handleSubmit env0 ?r)) = data ?r"
      "storage (snd (handleSubmit env0 ?r)) =
         (if can_store env0 then Text (snapshot (?r\<lparr>step := Fin (of_nat 2)\<rparr>)) else storage ?r)"
    by blast+
  from r2 v2 have b: "fst (handleSubmit env0 ?g) = Completed"
      "submitting (snd (handleSubmit env0 ?g))"
      "step (snd (handleSubmit env0 ?g)) = step ?g"
      "fst (submitted env0 (snd (handleSubmit env0 ?g))) = Completed"
      "step (snd (submitted env0 (snd (handleSubmit env0 ?g)))) = Fin 1"
      "\<forall>f \<in> set field_names.
         map_of (data (snd (submitted env0 (snd (handleSubmit env0 ?g))))) f = map_of data0 f"
      "map fst (data (snd (handleSubmit env0 ?g))) = field_names \<longrightarrow>
         data (snd (submitted env0 (snd (handleSubmit env0 ?g)))) = data0"
    by blast+
  from g1 f1 i1 g2 v1 a b d show ?thesis by simp
qed

text \<open>
  Claim C2 as stated fails: \<open>Submit\<close> on step 2 while the steps 1 and 2 both fail stays on
  step 2, not the first failing step; and a redirection from the review step changes the
  stored snapshot.
\<close>

theorem C2_submit_counterexample:
  "step_invalid env0 (type_into ''policyNumber'' ''x'' form_bad) (Fin 1) \<and>
   step (snd (handleSubmit env0
                ((initial (type_into ''policyNumber'' ''x'' form_bad) NoItem False)
                 \<lparr>step := Fin 2\<rparr>))) = Fin 2 \<and>
   storage (snd (handleSubmit env0 (persist env0 False (at_review form_policy_bad))))
     \<noteq> storage (persist env0 False (at_review form_policy_bad))"
  by code_simp

subsection \<open>The step stays a step\<close>

lemma in_range_clamp: "in_range (clamp (Fin r))"
  by (simp add: clamp_fin in_range_def totalSteps_def)

lemma is_step_clamp_iff: "is_step (clamp n) = clamps_to_step n"
proof (cases n)
  case NaN
  then show ?thesis by (simp add: clamp_def is_step_def clamps_to_step_def)
next
  case (Fin r)
  consider "r \<le> 1" | "4 \<le> r" | "1 < r" "r < 4" by linarith
  then show ?thesis
  proof cases
    case 1
    then have "min (max r 1) 4 = 1" by simp
    with Fin 1 show ?thesis
      by (simp add: clamp_fin is_step_def clamps_to_step_def totalSteps_def)
  next
    case 2
    then have "min (max r 1) 4 = 4" by simp
    with Fin 2 show ?thesis
      by (simp add: clamp_fin is_step_def clamps_to_step_def totalSteps_def)
  next
    case 3
    then have "min (max r 1) 4 = r" by simp
    with Fin 3 show ?thesis
      by (auto simp: clamp_fin is_step_def clamps_to_step_def totalSteps_def)
  qed
qed

lemma clamp_unchanged: "\<not> clamps_to_step n \<Longrightarrow> clamp n = n"
  by (cases n) (auto simp: clamp_fin clamp_def clamps_to_step_def totalSteps_def)

lemma whole_clamp_is_step: "is_number n \<Longrightarrow> \<not> bad_selector (clamp n) \<Longrightarrow> is_step (clamp n)"
  by (cases n)
     (auto simp: is_number_def clamp_fin bad_selector_def is_step_def totalSteps_def)

lemma is_step_number: "is_step s \<Longrightarrow> is_number s"
  by (cases s) (simp_all add: is_step_def is_number_def)

lemma goToStep_is_step:
  "is_step (step a) \<Longrightarrow> is_number n \<Longrightarrow> is_step (step (snd (goToStep e n f an a)))"
  using goToStep_step [of e n f an a] whole_clamp_is_step [of n] by auto

lemma submit_loop_step:
  "is_step (step a) \<Longrightarrow> is_step (step (snd (submit_loop e ss a)))"
proof (induction ss arbitrary: a)
  case Nil
  then show ?case by simp
next
  case (Cons s ss)
  show ?case
  proof (cases "validateStep e (controls a) (Fin (of_nat s)) (marks a)")
    case (Pair r m)
    show ?thesis
    proof (cases r)
      case (Inl x)
      with Pair Cons.prems show ?thesis by simp
    next
      case (Inr vf)
      obtain valid fi where vf: "vf = (valid, fi)" by (cases vf)
      show ?thesis
      proof (cases valid)
        case True
        with Pair Inr vf Cons.IH [of "a\<lparr>marks := m\<rparr>"] Cons.prems show ?thesis by simp
      next
        case False
        obtain x b where g: "goToStep e (Fin (of_nat s)) True True (a\<lparr>marks := m\<rparr>) = (x, b)"
          by (cases "goToStep e (Fin (of_nat s)) True True (a\<lparr>marks := m\<rparr>)")
        have "is_step (step (snd (goToStep e (Fin (of_nat s)) True True (a\<lparr>marks := m\<rparr>))))"
          using goToStep_is_step [of "a\<lparr>marks := m\<rparr>" "Fin (of_nat s)" e True True]
            Cons.prems by (simp add: is_number_def)
        with g have "is_step (step b)" by simp
        with Pair Inr vf False g show ?thesis
          by (cases x) (simp_all add: announceAssertive_fields)
      qed
    qed
  qed
qed

lemma handleSubmit_is_step:
  "is_step (step a) \<Longrightarrow> is_step (step (snd (handleSubmit e a)))"
proof -
  assume st: "is_step (step a)"
  obtain r m where v: "validateStep e (controls a) (step a) (marks a) = (r, m)"
    by (cases "validateStep e (controls a) (step a) (marks a)")
  have loop: "is_step (step (snd (submit_loop e [1, 2, 3] (a\<lparr>marks := m\<rparr>))))"
    by (rule submit_loop_step) (simp add: st)
  obtain o1 a1 where l: "submit_loop e [1, 2, 3] (a\<lparr>marks := m\<rparr>) = (o1, a1)"
    by (cases "submit_loop e [1, 2, 3] (a\<lparr>marks := m\<rparr>)")
  with loop have a1: "is_step (step a1)" by simp
  show ?thesis
  proof (cases r)
    case (Inl x)
    with v st show ?thesis by (simp add: handleSubmit_def)
  next
    case (Inr vf)
    obtain valid fi where vf: "vf = (valid, fi)" by (cases vf)
    show ?thesis
    proof (cases valid)
      case False
      with v Inr vf st show ?thesis
        by (simp add: handleSubmit_def announceAssertive_fields)
    next
      case True
      with v Inr vf l a1 show ?thesis
        by (cases o1) (simp_all add: handleSubmit_def del: submit_loop.simps)
    qed
  qed
qed

lemma submitted_is_step:
  "is_step (step a) \<Longrightarrow> is_step (step (snd (submitted e a)))"
proof -
  assume st: "is_step (step a)"
  define a3 where "a3 = a\<lparr>submitting := False, storage := NoItem,
    controls := form_reset (controls a), data := object_assign (data a) (JObj data0)\<rparr>"
  obtain x b where g: "goToStep e (Fin 1) True True a3 = (x, b)"
    by (cases "goToStep e (Fin 1) True True a3")
  have "is_step (step (snd (goToStep e (Fin 1) True True a3)))"
    using goToStep_is_step [of a3 "Fin 1" e True True] st
    by (simp add: a3_def is_number_def)
  with g have b: "is_step (step b)" by simp
  have "submitted e a =
    (if renderAllergyChips e (data a3) then (Raised TypeError, a3)
     else case goToStep e (Fin 1) True True a3 of
            (Some x, a4) \<Rightarrow> (Raised x, a4)
          | (None, a4) \<Rightarrow>
              (Completed, announcePolite e ''Form submitted and progress cleared.'' a4))"
    by (simp add: submitted_def Let_def clearState_def a3_def)
  with g b st show ?thesis
    by (cases x) (simp_all add: announcePolite_fields a3_def)
qed

lemma restore_throws:
  "storage a = Text saved \<Longrightarrow> truthy saved \<Longrightarrow> saved_step e saved = Inl x \<Longrightarrow>
     restoreFromStorage e a = (Some x, a)"
  by (simp add: restoreFromStorage_def loadState_def saved_step_def)

lemma restore_step:
  "storage a = Text saved \<Longrightarrow> truthy saved \<Longrightarrow> saved_step e saved = Inr n \<Longrightarrow>
     step (snd (restoreFromStorage e a)) = clamp n"
  by (simp add: restoreFromStorage_def loadState_def saved_step_def Let_def clamp_def)

lemma init_is_step:
  assumes r: "is_step (step (snd (restoreFromStorage e a)))"
  shows "is_step (step (snd (init e a)))"
proof (cases "restoreFromStorage e a")
  case (Pair x a1)
  with r have a1: "is_step (step a1)" by simp
  have "step (initProviderCombobox e a1) = step a1"
    by (simp add: initProviderCombobox_def renderProviderList_def)
  with a1 have "is_step (step (snd (goToStep e (step a1) True False (initProviderCombobox e a1))))"
    using goToStep_is_step [of "initProviderCombobox e a1" "step a1" e True False]
      is_step_number by simp
  with Pair a1 show ?thesis by (cases x) (simp_all add: init_def)
qed

text \<open>
  Claim C3, as amended. From a state whose step is an integer of \<open>[1, totalSteps]\<close>:
  \<open>goToStep\<close> with a target that is a number leaves the step such an integer, when it
  returns the step is the target clamped, and when it throws the step is as before; \<open>Next\<close> and \<open>Back\<close> with no target hint or one
  that is a number, \<open>Submit\<close> and the end of the submission keep the step such an integer.
  The restore leaves the step as it is without a readable snapshot and when the conversion
  of the stored step throws; otherwise it assigns the stored step (1 when it is absent or
  falsy), converted to a number and clamped, which is an integer of \<open>[1, totalSteps]\<close>
  exactly when the converted value is a number that is an integer, at most 1 or at least
  \<open>totalSteps\<close>, and which is the converted value itself otherwise. The start ends on such
  an integer whenever the restore does, and on step 1 when nothing is stored.
\<close>

theorem C3_step_stays_in_range:
  assumes "is_step (step a)"
  shows
    "(is_number n \<longrightarrow> is_step (step (snd (goToStep e n f an a)))) \<and>
     (fst (goToStep e (Fin r) f an a) = None \<longrightarrow>
        step (snd (goToStep e (Fin r) f an a)) = Fin (min (max r 1) 4)) \<and>
     (fst (goToStep e n f an a) \<noteq> None \<longrightarrow> step (snd (goToStep e n f an a)) = step a) \<and>
     (num_hint h \<longrightarrow>
        is_step (step (snd (handleNext e h a))) \<and> is_step (step (snd (handleBack e h a)))) \<and>
     is_step (step (snd (handleSubmit e a))) \<and>
     is_step (step (snd (submitted e a))) \<and>
     (storage a = NoItem \<or> storage a = BadText \<or> (\<exists>j. storage a = Text j \<and> \<not> truthy j) \<longrightarrow>
        step (snd (restoreFromStorage e a)) = step a) \<and>
     (storage a = Text saved \<and> truthy saved \<and> saved_step e saved = Inl x \<longrightarrow>
        step (snd (restoreFromStorage e a)) = step a) \<and>
     (storage a = Text saved \<and> truthy saved \<and> saved_step e saved = Inr m \<longrightarrow>
        step (snd (restoreFromStorage e a)) = clamp m \<and>
        is_step (step (snd (restoreFromStorage e a))) = clamps_to_step m \<and>
        (\<not> clamps_to_step m \<longrightarrow> step (snd (restoreFromStorage e a)) = m)) \<and>
     (is_step (step (snd (restoreFromStorage e a))) \<longrightarrow> is_step (step (snd (init e a)))) \<and>
     step (snd (init e (initial cs NoItem opened))) = Fin 1"
proof -
  have p1: "is_number n \<longrightarrow> is_step (step (snd (goToStep e n f an a)))"
    using assms goToStep_is_step by blast
  have p2: "fst (goToStep e (Fin r) f an a) = None \<longrightarrow>
        step (snd (goToStep e (Fin r) f an a)) = Fin (min (max r 1) 4)"
    by (simp add: goToStep_def Let_def persist_fields announcePolite_fields totalSteps_def)
  have p2': "fst (goToStep e n f an a) \<noteq> None \<longrightarrow> step (snd (goToStep e n f an a)) = step a"
    by (simp add: goToStep_def Let_def announcePolite_fields)
  have p3: "num_hint h \<longrightarrow>
        is_step (step (snd (handleNext e h a))) \<and> is_step (step (snd (handleBack e h a)))"
  proof
    assume h: "num_hint h"
    from assms obtain q where q: "step a = Fin q" by (cases "step a") (simp_all add: is_step_def)
    have nx: "is_number (case h of Some n \<Rightarrow> n | None \<Rightarrow> num_add (step a) 1)"
      using h q by (cases h) (simp_all add: num_hint_def is_number_def)
    have pv: "is_number (math_max (Fin 1)
        (case h of Some n \<Rightarrow> n | None \<Rightarrow> num_add (step a) (- 1)))"
      using h q by (cases h) (auto simp: num_hint_def is_number_def split: jsnum.splits)
    show "is_step (step (snd (handleNext e h a))) \<and> is_step (step (snd (handleBack e h a)))"
      using handleNext_step [of e h a] handleBack_step [of e h a] assms
        whole_clamp_is_step [OF nx] whole_clamp_is_step [OF pv] by auto
  qed
  have p4: "is_step (step (snd (handleSubmit e a)))"
    using assms by (rule handleSubmit_is_step)
  have p5: "is_step (step (snd (submitted e a)))"
    using assms by (rule submitted_is_step)
  have p6: "storage a = NoItem \<or> storage a = BadText \<or> (\<exists>j. storage a = Text j \<and> \<not> truthy j) \<longrightarrow>
        step (snd (restoreFromStorage e a)) = step a"
    by (auto simp: restoreFromStorage_def loadState_def)
  have p7: "storage a = Text saved \<and> truthy saved \<and> saved_step e saved = Inl x \<longrightarrow>
        step (snd (restoreFromStorage e a)) = step a"
    by (auto simp: restore_throws)
  have p8: "storage a = Text saved \<and> truthy saved \<and> saved_step e saved = Inr m \<longrightarrow>
        step (snd (restoreFromStorage e a)) = clamp m \<and>
        is_step (step (snd (restoreFromStorage e a))) = clamps_to_step m \<and>
        (\<not> clamps_to_step m \<longrightarrow> step (snd (restoreFromStorage e a)) = m)"
    by (auto simp: restore_step is_step_clamp_iff clamp_unchanged)
  have p9: "is_step (step (snd (restoreFromStorage e a))) \<longrightarrow> is_step (step (snd (init e a)))"
    using init_is_step by blast
  have p10: "step (snd (init e (initial cs NoItem opened))) = Fin 1"
    by (simp add: init_def restoreFromStorage_def loadState_def initial_def goToStep_def
        Let_def persist_fields announcePolite_fields initProviderCombobox_def
        renderProviderList_def totalSteps_def bad_selector_def)
  from p1 p2 p2' p3 p4 p5 p6 p7 p8 p9 p10 show ?thesis by blast
qed

text \<open>
  Claim C3, instances on a page without controls: with nothing stored a request for step 7
  ends on step 4, a request for step 2.5 throws and leaves step 1, and the other operations
  leave a step; a stored step whose conversion
  throws leaves step 1; a stored step 9 is restored as step 4; a stored step 2.5 is
  restored as 2.5.
\<close>

theorem C3_step_stays_in_range_witness:
  "is_step (step (initial [] NoItem False)) \<and>
   is_number (Fin 7) \<and> num_hint None \<and>
   fst (goToStep env0 (Fin 7) True True (initial [] NoItem False)) = None \<and>
   is_step (step (snd (goToStep env0 (Fin 7) True True (initial [] NoItem False)))) \<and>
   step (snd (goToStep env0 (Fin 7) True True (initial [] NoItem False))) = Fin 4 \<and>
   fst (goToStep env0 (Fin (5 / 2)) True True (initial [] NoItem False)) \<noteq> None \<and>
   step (snd (goToStep env0 (Fin (5 / 2)) True True (initial [] NoItem False))) = Fin 1 \<and>
   is_step (step (snd (handleNext env0 None (initial [] NoItem False)))) \<and>
   is_step (step (snd (handleBack env0 None (initial [] NoItem False)))) \<and>
   is_step (step (snd (handleSubmit env0 (initial [] NoItem False)))) \<and>
   is_step (step (snd (submitted env0 (initial [] NoItem False)))) \<and>
   storage (initial [] NoItem False) = NoItem \<and>
   step (snd (restoreFromStorage env0 (initial [] NoItem False))) = Fin 1 \<and>
   is_step (step (snd (init env0 (initial [] NoItem False)))) \<and>
   step (snd (init env0 (initial [] NoItem False))) = Fin 1 \<and>
   saved_step env0 (JObj [(''step'', JObj [(''toString'', JNum 1)]),
                          (''data'', JObj [(''firstName'', JStr ''Ann'')])]) = Inl TypeError \<and>
   step (snd (restoreFromStorage env0 (initial [] rec_step_throws False))) = Fin 1 \<and>
   saved_step env0 (JObj [(''step'', JNum 9)]) = Inr (Fin 9) \<and>
   clamps_to_step (Fin 9) \<and>
   step (snd (restoreFromStorage env0 (initial [] rec_step_9 False))) = Fin 4 \<and>
   is_step (step (snd (restoreFromStorage env0 (initial [] rec_step_9 False)))) \<and>
   is_step (step (snd (init env0 (initial [] rec_step_9 False)))) \<and>
   saved_step env0 (JObj [(''step'', JNum (5 / 2))]) = Inr (Fin (5 / 2)) \<and>
   \<not> clamps_to_step (Fin (5 / 2)) \<and>
   step (snd (restoreFromStorage env0 (initial [] rec_step_half False))) = Fin (5 / 2)"
proof -
  let ?a = "initial [] NoItem False"
  have s0: "step ?a = Fin 1" "storage ?a = NoItem" by (simp_all add: initial_def)
  have h: "is_step (step ?a)" by code_simp
  have n7: "is_number (Fin 7)" by (simp add: is_number_def)
  have nh: "num_hint None" by (simp add: num_hint_def)
  have ok: "fst (goToStep env0 (Fin 7) True True ?a) = None" by code_simp
  note t0 = C3_step_stays_in_range [OF h, where n = "Fin 7" and e = env0 and f = True
      and an = True and r = 7 and h = None and cs = "[]" and opened = False]
  from t0 n7 have g1: "is_step (step (snd (goToStep env0 (Fin 7) True True ?a)))" by blast
  from t0 ok have "step (snd (goToStep env0 (Fin 7) True True ?a)) = Fin (min (max 7 1) 4)"
    by blast
  then have g2: "step (snd (goToStep env0 (Fin 7) True True ?a)) = Fin 4" by simp
  have thr: "fst (goToStep env0 (Fin (5 / 2)) True True ?a) \<noteq> None" by code_simp
  from C3_step_stays_in_range [OF h, where n = "Fin (5 / 2)" and e = env0 and f = True
      and an = True] thr
  have "step (snd (goToStep env0 (Fin (5 / 2)) True True ?a)) = step ?a" by blast
  with s0 have g2': "step (snd (goToStep env0 (Fin (5 / 2)) True True ?a)) = Fin 1" by simp
  from t0 nh have g3: "is_step (step (snd (handleNext env0 None ?a)))"
    "is_step (step (snd (handleBack env0 None ?a)))" by blast+
  from t0 have g4: "is_step (step (snd (handleSubmit env0 ?a)))"
    "is_step (step (snd (submitted env0 ?a)))"
    "step (snd (init env0 ?a)) = Fin 1" by blast+
  from t0 s0(2) have "step (snd (restoreFromStorage env0 ?a)) = step ?a" by blast
  with s0 have g5: "step (snd (restoreFromStorage env0 ?a)) = Fin 1" by simp
  with h s0 have "is_step (step (snd (restoreFromStorage env0 ?a)))" by simp
  with t0 have g6: "is_step (step (snd (init env0 ?a)))" by blast
  let ?b = "initial [] rec_step_throws False"
  let ?sb = "JObj [(''step'', JObj [(''toString'', JNum 1)]),
                   (''data'', JObj [(''firstName'', JStr ''Ann'')])]"
  have hb: "is_step (step ?b)" by code_simp
  have sb: "storage ?b = Text ?sb" "truthy ?sb" "step ?b = Fin 1"
    by (simp_all add: initial_def rec_step_throws_def)
  have cb: "saved_step env0 ?sb = Inl TypeError" by code_simp
  from C3_step_stays_in_range [OF hb, where e = env0 and saved = ?sb and x = TypeError] sb cb
  have "step (snd (restoreFromStorage env0 ?b)) = step ?b" by blast
  with sb have g7: "step (snd (restoreFromStorage env0 ?b)) = Fin 1" by simp
  let ?c = "initial [] rec_step_9 False"
  let ?sc = "JObj [(''step'', JNum 9)]"
  have hc: "is_step (step ?c)" by code_simp
  have sc: "storage ?c = Text ?sc" "truthy ?sc" by (simp_all add: initial_def rec_step_9_def)
  have cc: "saved_step env0 ?sc = Inr (Fin 9)" by code_simp
  have k9: "clamps_to_step (Fin 9)" by code_simp
  have c9: "clamp (Fin 9) = Fin 4" by (simp add: clamp_fin)
  note tc = C3_step_stays_in_range [OF hc, where e = env0 and saved = ?sc and m = "Fin 9"]
  from tc sc cc have "step (snd (restoreFromStorage env0 ?c)) = clamp (Fin 9)"
    "is_step (step (snd (restoreFromStorage env0 ?c))) = clamps_to_step (Fin 9)" by blast+
  with c9 k9 have g8: "step (snd (restoreFromStorage env0 ?c)) = Fin 4"
    "is_step (step (snd (restoreFromStorage env0 ?c)))" by simp_all
  with tc have g9: "is_step (step (snd (init env0 ?c)))" by blast
  let ?d = "initial [] rec_step_half False"
  let ?sd = "JObj [(''step'', JNum (5 / 2))]"
  have hd: "is_step (step ?d)" by code_simp
  have sd: "storage ?d = Text ?sd" "truthy ?sd" by (simp_all add: initial_def rec_step_half_def)
  have cd: "saved_step env0 ?sd = Inr (Fin (5 / 2))" by code_simp
  have kd: "\<not> clamps_to_step (Fin (5 / 2))" by code_simp
  from C3_step_stays_in_range [OF hd, where e = env0 and saved = ?sd and m = "Fin (5 / 2)"]
    sd cd kd
  have g10: "step (snd (restoreFromStorage env0 ?d)) = Fin (5 / 2)" by blast
  from h n7 nh ok g1 g2 thr g2' g3 g4 s0(2) g5 g6 cb g7 cc k9 g8 g9 cd kd g10
  show ?thesis by blast
qed

text \<open>
  Claim C3 as stated fails: started on a snapshot whose \<open>step\<close> is 2.5 the script ends on
  step 2.5, which is no integer (the restore assigns it, and \<open>goToStep\<close> then throws on the
  selector of the Back button); and on a snapshot whose \<open>step\<close> is an empty object the
  restore assigns \<open>NaN\<close>, which \<open>goToStep\<close> assigns again.
\<close>

theorem C3_persisted_step_counterexample:
  "\<not> is_step (step (snd (init env0 (initial [] (Text (JObj [(''step'', JNum (5 / 2))])) False)))) \<and>
   \<not> in_range (step (snd (init env0 (initial [] (Text (JObj [(''step'', JObj [])])) False))))"
  by code_simp

subsection \<open>Saving and restoring\<close>

lemma snapshot_step_number:
  "\<exists>n. toNumber e (or_else (get_prop (snapshot a) ''step'') (JNum 1)) = Inr n"
  by (cases "step a") (simp_all add: snapshot_def)

text \<open>
  Claim C4. When \<open>state.data\<close> holds exactly the canonical fields and the storage accepts
  the write, saving the state and restoring it on a freshly loaded page gives back
  \<open>state.data\<close> as it was, value by value and in the same order; the sequence of allergies
  in particular is the same sequence.
\<close>

theorem C4_persist_restore_identity:
  assumes keys: "map fst (data a) = field_names" and store: "can_store e"
  shows
    "data (snd (restoreFromStorage e (initial cs (storage (persist e announce a)) opened)))
       = data a \<and>
     (\<forall>xs. map_of (data a) ''allergies'' = Some (JArr xs) \<longrightarrow>
        map_of (data (snd (restoreFromStorage e
                  (initial cs (storage (persist e announce a)) opened)))) ''allergies''
          = Some (JArr xs))"
proof -
  let ?b = "initial cs (storage (persist e announce a)) opened"
  have st: "storage ?b = Text (snapshot a)"
    using store by (simp add: initial_def persist_def saveState_def announcePolite_def Let_def)
  obtain n where n: "toNumber e (or_else (get_prop (snapshot a) ''step'') (JNum 1)) = Inr n"
    using snapshot_step_number by blast
  have tr: "truthy (snapshot a)" by (simp add: snapshot_def)
  have dt: "or_else (get_prop (snapshot a) ''data'') (JObj []) = JObj (data a)"
    by (simp add: snapshot_def)
  have np: "''__proto__'' \<notin> fst ` set (data a)"
    using keys no_proto by (metis list.set_map)
  have "data (snd (restoreFromStorage e ?b)) = object_assign data0 (JObj (data a))"
    using restore_data [OF st tr n] dt by (simp add: initial_def)
  also have "\<dots> = data a"
    using fold_update_same_keys [of data0 "data a"] keys data0_keys field_names_distinct
    by (simp add: object_assign_obj [OF np])
  finally show ?thesis by simp
qed

text \<open>Claim C4, an instance: two allergies come back in their order.\<close>

theorem C4_persist_restore_identity_witness:
  "map fst (data ((initial form_ok NoItem False)
      \<lparr>data := AList.update ''allergies'' (JArr [JStr ''nuts'', JStr ''latex'']) data0\<rparr>))
     = field_names \<and> can_store env0 \<and>
   data (snd (restoreFromStorage env0 (initial form_ok
      (storage (persist env0 True ((initial form_ok NoItem False)
         \<lparr>data := AList.update ''allergies'' (JArr [JStr ''nuts'', JStr ''latex'']) data0\<rparr>)))
      False)))
     = AList.update ''allergies'' (JArr [JStr ''nuts'', JStr ''latex'']) data0 \<and>
   map_of (data (snd (restoreFromStorage env0 (initial form_ok
      (storage (persist env0 True ((initial form_ok NoItem False)
         \<lparr>data := AList.update ''allergies'' (JArr [JStr ''nuts'', JStr ''latex'']) data0\<rparr>)))
      False)))) ''allergies''
     = Some (JArr [JStr ''nuts'', JStr ''latex''])"
proof -
  let ?a = "(initial form_ok NoItem False)
      \<lparr>data := AList.update ''allergies'' (JArr [JStr ''nuts'', JStr ''latex'']) data0\<rparr>"
  have k: "map fst (data ?a) = field_names" by code_simp
  have s: "can_store env0" by (simp add: env0_def)
  have m: "map_of (data ?a) ''allergies'' = Some (JArr [JStr ''nuts'', JStr ''latex''])"
    by code_simp
  from C4_persist_restore_identity [OF k s, of form_ok True False] k s m show ?thesis by simp
qed

subsection \<open>Records that are not snapshots\<close>

lemma fold_assign_filter:
  "fold (\<lambda>(k, v) d. if k = ''__proto__'' then d else AList.update k v d) kvs d
     = fold (\<lambda>(k, v) d. AList.update k v d) (filter (\<lambda>kv. fst kv \<noteq> ''__proto__'') kvs) d"
  by (induction kvs arbitrary: d) (auto split: prod.splits)

lemma map_of_object_assign:
  "map_of (object_assign d src) = map_of d ++ map_of (rev (assigned src))"
  by (simp add: object_assign_def assigned_def fold_assign_filter map_of_fold_update)

lemma object_assign_nothing: "own_entries src = [] \<Longrightarrow> object_assign d src = d"
  by (simp add: object_assign_def)

lemma restore_step_throws:
  "storage a = Text saved \<Longrightarrow> truthy saved \<Longrightarrow> saved_step e saved = Inl x \<Longrightarrow>
     restoreFromStorage e a = (Some x, a)"
  by (simp add: restoreFromStorage_def loadState_def saved_step_def)

text \<open>
  Claim C5, as amended. A storage entry that is absent, that does not parse, or that
  parses to a falsy value leaves the whole state as it is. For an entry that parses to a
  truthy value: when the conversion of its \<open>step\<close> to a number throws, the restore throws
  and leaves the whole state as it is; otherwise \<open>state.data\<close> is the result of
  \<open>Object.assign\<close> from the stored \<open>data\<close>, or from \<open>{}\<close> when that is absent or falsy, so
  every own property of the stored value (of an object its properties, of an array or a
  string its elements under their indices, \<open>__proto__\<close> left out) takes the stored value
  and every other field keeps its value; with a stored \<open>data\<close> that is absent, or has no own
  property, \<open>state.data\<close> is as before.
\<close>

theorem C5_restore_of_unusable_records:
  "(storage a = NoItem \<or> storage a = BadText \<or> (\<exists>j. storage a = Text j \<and> \<not> truthy j) \<longrightarrow>
      restoreFromStorage e a = (None, a)) \<and>
   (storage a = Text saved \<and> truthy saved \<and> saved_step e saved = Inl x \<longrightarrow>
      restoreFromStorage e a = (Some x, a)) \<and>
   (storage a = Text saved \<and> truthy saved \<and> saved_step e saved = Inr n \<longrightarrow>
      data (snd (restoreFromStorage e a))
        = object_assign (data a) (or_else (get_prop saved ''data'') (JObj [])) \<and>
      map_of (data (snd (restoreFromStorage e a)))
        = map_of (data a)
            ++ map_of (rev (assigned (or_else (get_prop saved ''data'') (JObj [])))) \<and>
      (get_prop saved ''data'' = None \<or>
       (\<exists>d. get_prop saved ''data'' = Some d \<and> (\<not> truthy d \<or> own_entries d = [])) \<longrightarrow>
         data (snd (restoreFromStorage e a)) = data a))"
proof -
  have p1: "storage a = NoItem \<or> storage a = BadText \<or> (\<exists>j. storage a = Text j \<and> \<not> truthy j) \<longrightarrow>
      restoreFromStorage e a = (None, a)"
    using restore_no_snapshot by blast
  have p2: "storage a = Text saved \<and> truthy saved \<and> saved_step e saved = Inl x \<longrightarrow>
      restoreFromStorage e a = (Some x, a)"
    using restore_step_throws by blast
  have p3: "data (snd (restoreFromStorage e a))
        = object_assign (data a) (or_else (get_prop saved ''data'') (JObj []))"
    if "storage a = Text saved" "truthy saved" "saved_step e saved = Inr n"
    using restore_data [of a saved e n] that by (simp add: saved_step_def)
  have p4: "object_assign (data a) (or_else (get_prop saved ''data'') (JObj [])) = data a"
    if "get_prop saved ''data'' = None \<or>
       (\<exists>d. get_prop saved ''data'' = Some d \<and> (\<not> truthy d \<or> own_entries d = []))"
  proof -
    from that have "own_entries (or_else (get_prop saved ''data'') (JObj [])) = []"
      by (cases "get_prop saved ''data''") auto
    then show ?thesis by (rule object_assign_nothing)
  qed
  from p1 p2 p3 p4 show ?thesis
    by (simp add: map_of_object_assign)
qed

text \<open>
  Claim C5, instances on the sample page: an entry that does not parse; an entry whose
  step cannot be converted, of which nothing is restored; the entry that holds the first
  name only; the entry \<open>{"data": "ab"}\<close>, which adds the fields \<open>0\<close> and \<open>1\<close>; and the entry
  \<open>{"data": null}\<close>.
\<close>

theorem C5_restore_of_unusable_records_witness:
  "storage (initial form_ok BadText False) = BadText \<and>
   restoreFromStorage env0 (initial form_ok BadText False) = (None, initial form_ok BadText False) \<and>
   storage (initial form_ok rec_step_throws False) = rec_step_throws \<and>
   restoreFromStorage env0 (initial form_ok rec_step_throws False)
     = (Some TypeError, initial form_ok rec_step_throws False) \<and>
   storage (initial form_ok partial_record False) = partial_record \<and>
   map_of (data (snd (restoreFromStorage env0 (initial form_ok partial_record False))))
     = map_of data0 ++ map_of [(''firstName'', JStr ''Ann'')] \<and>
   storage (initial form_ok rec_data_string False) = rec_data_string \<and>
   map_of (data (snd (restoreFromStorage env0 (initial form_ok rec_data_string False))))
     = map_of data0 ++ map_of [(''1'', JStr ''b''), (''0'', JStr ''a'')] \<and>
   storage (initial form_ok rec_data_null False) = rec_data_null \<and>
   data (snd (restoreFromStorage env0 (initial form_ok rec_data_null False))) = data0"
proof -
  let ?s1 = "JObj [(''step'', JObj [(''toString'', JNum 1)]),
                   (''data'', JObj [(''firstName'', JStr ''Ann'')])]"
  let ?s2 = "JObj [(''data'', JObj [(''firstName'', JStr ''Ann'')])]"
  let ?s3 = "JObj [(''data'', JStr ''ab'')]"
  let ?s4 = "JObj [(''data'', JNull)]"
  have s0: "storage (initial form_ok BadText False) = BadText"
    and s1: "storage (initial form_ok rec_step_throws False) = Text ?s1"
    and s2: "storage (initial form_ok partial_record False) = Text ?s2"
    and s3: "storage (initial form_ok rec_data_string False) = Text ?s3"
    and s4: "storage (initial form_ok rec_data_null False) = Text ?s4"
    and d: "data (initial form_ok partial_record False) = data0"
      "data (initial form_ok rec_data_string False) = data0"
      "data (initial form_ok rec_data_null False) = data0"
    by (simp_all add: initial_def rec_step_throws_def partial_record_def rec_data_string_def
        rec_data_null_def)
  have t: "truthy ?s1" "truthy ?s2" "truthy ?s3" "truthy ?s4" by simp_all
  have n1: "saved_step env0 ?s1 = Inl TypeError" by code_simp
  have n2: "saved_step env0 ?s2 = Inr (Fin 1)" by code_simp
  have n3: "saved_step env0 ?s3 = Inr (Fin 1)" by code_simp
  have n4: "saved_step env0 ?s4 = Inr (Fin 1)" by code_simp
  have e2: "rev (assigned (or_else (get_prop ?s2 ''data'') (JObj [])))
      = [(''firstName'', JStr ''Ann'')]" by code_simp
  have e3: "rev (assigned (or_else (get_prop ?s3 ''data'') (JObj [])))
      = [(''1'', JStr ''b''), (''0'', JStr ''a'')]" by code_simp
  have e4: "\<exists>d. get_prop ?s4 ''data'' = Some d \<and> (\<not> truthy d \<or> own_entries d = [])"
    by simp
  from C5_restore_of_unusable_records [of "initial form_ok BadText False" env0 JNull TypeError NaN]
    s0
  have r0: "restoreFromStorage env0 (initial form_ok BadText False)
      = (None, initial form_ok BadText False)" by blast
  from C5_restore_of_unusable_records
    [of "initial form_ok rec_step_throws False" env0 ?s1 TypeError NaN] s1 t(1) n1
  have r1: "restoreFromStorage env0 (initial form_ok rec_step_throws False)
      = (Some TypeError, initial form_ok rec_step_throws False)" by blast
  from C5_restore_of_unusable_records
    [of "initial form_ok partial_record False" env0 ?s2 TypeError "Fin 1"] s2 t(2) n2
  have "map_of (data (snd (restoreFromStorage env0 (initial form_ok partial_record False))))
      = map_of (data (initial form_ok partial_record False))
          ++ map_of (rev (assigned (or_else (get_prop ?s2 ''data'') (JObj []))))" by blast
  then have r2: "map_of (data (snd (restoreFromStorage env0 (initial form_ok partial_record False))))
      = map_of data0 ++ map_of [(''firstName'', JStr ''Ann'')]"
    unfolding e2 d .
  from C5_restore_of_unusable_records
    [of "initial form_ok rec_data_string False" env0 ?s3 TypeError "Fin 1"] s3 t(3) n3
  have "map_of (data (snd (restoreFromStorage env0 (initial form_ok rec_data_string False))))
      = map_of (data (initial form_ok rec_data_string False))
          ++ map_of (rev (assigned (or_else (get_prop ?s3 ''data'') (JObj []))))" by blast
  then have r3: "map_of (data (snd (restoreFromStorage env0 (initial form_ok rec_data_string False))))
      = map_of data0 ++ map_of [(''1'', JStr ''b''), (''0'', JStr ''a'')]"
    unfolding e3 d .
  from C5_restore_of_unusable_records
    [of "initial form_ok rec_data_null False" env0 ?s4 TypeError "Fin 1"] s4 t(4) n4 e4
  have "data (snd (restoreFromStorage env0 (initial form_ok rec_data_null False)))
      = data (initial form_ok rec_data_null False)" by blast
  then have r4: "data (snd (restoreFromStorage env0 (initial form_ok rec_data_null False))) = data0"
    unfolding d .
  have q: "rec_step_throws = Text ?s1" "partial_record = Text ?s2" "rec_data_string = Text ?s3"
    "rec_data_null = Text ?s4"
    by (simp_all add: rec_step_throws_def partial_record_def rec_data_string_def
        rec_data_null_def)
  from s0 s1 s2 s3 s4 r0 r1 r2 r3 r4 show ?thesis unfolding q [symmetric] by blast
qed

text \<open>
  Claim C5 as stated fails: the entry \<open>{"data": {"firstName": "Ann"}}\<close> is merged into the
  defaults, the first name is restored and the last name is not; and of the entry
  \<open>{"data": "ab"}\<close> the field \<open>0\<close> is restored.
\<close>

theorem C5_partial_record_counterexample:
  "data (snd (restoreFromStorage env0 (initial form_ok partial_record False)))
     \<noteq> data (initial form_ok NoItem False) \<and>
   map_of (data (snd (restoreFromStorage env0 (initial form_ok partial_record False))))
     ''firstName'' = Some (JStr ''Ann'') \<and>
   map_of (data (snd (restoreFromStorage env0 (initial form_ok partial_record False))))
     ''lastName'' = Some (JStr []) \<and>
   map_of (data (snd (restoreFromStorage env0 (initial form_ok rec_data_string False))))
     ''0'' = Some (JStr ''a'')"
  by code_simp

subsection \<open>Confirming the policy number\<close>

lemma trim_Nil: "trim [] = []"
  by (simp add: trim_def)

lemma check_confirm:
  assumes pn: "getElementById cs ''policyNumber'' = Some pn" and i: "el_id c = ''policyConfirm''"
  shows "check e cs c = Inr (trim (el_value c) \<noteq> [] \<and> trim (el_value c) = el_value pn)"
  using pn i by (simp add: check_def Let_def isNonEmpty_trim)

text \<open>
  Claim C6, as amended. With a policy number that has no white space around it, the
  validation of the confirmation returns true exactly when the confirmation, trimmed, is
  not empty and equals the policy number, and it marks the field accordingly; and when the
  confirmation has validated and the policy number is then changed to another value, the
  validation of the policy number marks the confirmation invalid.
\<close>

theorem C6_policy_confirmation:
  assumes pn: "getElementById cs ''policyNumber'' = Some pn"
    and c: "getElementById cs ''policyConfirm'' = Some c"
    and clean: "trim (el_value pn) = el_value pn"
  shows
    "fst (validateField e cs (Some c) m)
       = Inr (trim (el_value c) \<noteq> [] \<and> trim (el_value c) = el_value pn) \<and>
     snd (validateField e cs (Some c) m) ''policyConfirm''
       = (if trim (el_value c) \<noteq> [] \<and> trim (el_value c) = el_value pn then Valid else Invalid) \<and>
     (fst (validateField e cs (Some c) m) = Inr True \<and> new \<noteq> el_value pn \<longrightarrow>
        snd (validateField e (type_into ''policyNumber'' new cs)
               (getElementById (type_into ''policyNumber'' new cs) ''policyNumber'') m')
          ''policyConfirm'' = Invalid)"
proof -
  have ic: "el_id c = ''policyConfirm''" using c by (rule getElementById_id)
  have ip: "el_id pn = ''policyNumber''" using pn by (rule getElementById_id)
  have vf: "validateField e cs (Some c) m = validate_one e cs c m"
    using ic by (simp add: validateField_def)
  have ck: "check e cs c = Inr (trim (el_value c) \<noteq> [] \<and> trim (el_value c) = el_value pn)"
    using check_confirm [OF pn ic] .
  have p1: "fst (validateField e cs (Some c) m)
       = Inr (trim (el_value c) \<noteq> [] \<and> trim (el_value c) = el_value pn)"
    by (simp add: vf validate_one_def ck)
  have p2: "snd (validateField e cs (Some c) m) ''policyConfirm''
       = (if trim (el_value c) \<noteq> [] \<and> trim (el_value c) = el_value pn then Valid else Invalid)"
    by (simp add: vf validate_one_def ck set_mark_def ic)
  have p3: "snd (validateField e (type_into ''policyNumber'' new cs)
               (getElementById (type_into ''policyNumber'' new cs) ''policyNumber'') m')
          ''policyConfirm'' = Invalid"
    if was: "fst (validateField e cs (Some c) m) = Inr True" and ne: "new \<noteq> el_value pn"
  proof -
    let ?cs = "type_into ''policyNumber'' new cs"
    let ?pn = "pn\<lparr>el_value := new\<rparr>"
    from was [unfolded p1] have t: "trim (el_value c) \<noteq> []" "trim (el_value c) = el_value pn"
      by auto
    from t(1) have vc: "el_value c \<noteq> []" using trim_Nil by force
    have gp: "getElementById ?cs ''policyNumber'' = Some ?pn"
      using pn by (simp add: getElementById_type_into_same)
    have gc: "getElementById ?cs ''policyConfirm'' = Some c"
      using c by (simp add: getElementById_type_into_other)
    have "check e ?cs c = Inr (trim (el_value c) \<noteq> [] \<and> trim (el_value c) = el_value ?pn)"
      using check_confirm [OF gp ic] .
    with t ne have cf: "check e ?cs c = Inr False" by simp
    obtain ok where okp: "check e ?cs ?pn = Inr ok"
      using ip by (auto simp: check_def Let_def)
    have "validateField e ?cs (Some ?pn) m'
          = validate_one e ?cs ?pn (set_mark ''policyConfirm'' False m')"
      using ip gc vc cf ic by (simp add: validateField_def validate_one_def)
    then have "snd (validateField e ?cs (Some ?pn) m') ''policyConfirm'' = Invalid"
      using okp ip by (simp add: validate_one_def set_mark_def)
    with gp show ?thesis by simp
  qed
  from p1 p2 p3 show ?thesis by blast
qed

text \<open>
  Claim C6, an instance: on the sample form the confirmation validates, and typing
  another policy number marks it invalid.
\<close>

theorem C6_policy_confirmation_witness:
  "getElementById form_ok ''policyNumber'' = Some (ctl ''policyNumber'' ''AB-123456'' 2) \<and>
   getElementById form_ok ''policyConfirm'' = Some (ctl ''policyConfirm'' ''AB-123456'' 2) \<and>
   trim (el_value (ctl ''policyNumber'' ''AB-123456'' 2))
     = el_value (ctl ''policyNumber'' ''AB-123456'' 2) \<and>
   fst (validateField env0 form_ok (Some (ctl ''policyConfirm'' ''AB-123456'' 2)) no_marks)
     = Inr True \<and>
   ''AB-999999'' \<noteq> el_value (ctl ''policyNumber'' ''AB-123456'' 2) \<and>
   snd (validateField env0 (type_into ''policyNumber'' ''AB-999999'' form_ok)
          (getElementById (type_into ''policyNumber'' ''AB-999999'' form_ok) ''policyNumber'')
          no_marks) ''policyConfirm'' = Invalid"
proof -
  have pn: "getElementById form_ok ''policyNumber'' = Some (ctl ''policyNumber'' ''AB-123456'' 2)"
    by code_simp
  have c: "getElementById form_ok ''policyConfirm'' = Some (ctl ''policyConfirm'' ''AB-123456'' 2)"
    by code_simp
  have clean: "trim (el_value (ctl ''policyNumber'' ''AB-123456'' 2))
     = el_value (ctl ''policyNumber'' ''AB-123456'' 2)" by code_simp
  have eq: "trim (el_value (ctl ''policyConfirm'' ''AB-123456'' 2)) \<noteq> [] \<and>
     trim (el_value (ctl ''policyConfirm'' ''AB-123456'' 2))
       = el_value (ctl ''policyNumber'' ''AB-123456'' 2)" by code_simp
  have ne: "''AB-999999'' \<noteq> el_value (ctl ''policyNumber'' ''AB-123456'' 2)" by code_simp
  note t = C6_policy_confirmation [OF pn c clean, of env0 no_marks "''AB-999999''" no_marks]
  from t have "fst (validateField env0 form_ok (Some (ctl ''policyConfirm'' ''AB-123456'' 2))
      no_marks)
      = Inr (trim (el_value (ctl ''policyConfirm'' ''AB-123456'' 2)) \<noteq> [] \<and>
     trim (el_value (ctl ''policyConfirm'' ''AB-123456'' 2))
       = el_value (ctl ''policyNumber'' ''AB-123456'' 2))" by blast
  also have "\<dots> = Inr True" using eq by auto
  finally have v: "fst (validateField env0 form_ok (Some (ctl ''policyConfirm'' ''AB-123456'' 2))
      no_marks) = Inr True" .
  with t ne have "snd (validateField env0 (type_into ''policyNumber'' ''AB-999999'' form_ok)
          (getElementById (type_into ''policyNumber'' ''AB-999999'' form_ok) ''policyNumber'')
          no_marks) ''policyConfirm'' = Invalid" by blast
  with pn c clean v ne show ?thesis by blast
qed

text \<open>
  Claim C6 as stated fails: a confirmation with a space after it validates although it is
  not the string of the policy number.
\<close>

theorem C6_trimmed_confirmation_counterexample:
  "fst (validateField env0 form_confirm_spaced
          (getElementById form_confirm_spaced ''policyConfirm'') no_marks) = Inr True \<and>
   map_option el_value (getElementById form_confirm_spaced ''policyConfirm'')
     = Some ''AB-123456 '' \<and>
   map_option el_value (getElementById form_confirm_spaced ''policyNumber'')
     = Some ''AB-123456'' \<and>
   ''AB-123456 '' \<noteq> ''AB-123456''"
  by code_simp

subsection \<open>Typing into the provider input\<close>

lemma startsWith_iff: "startsWith s q = (\<exists>post. s = q @ post)"
  by (induction s q rule: startsWith.induct) auto

lemma includes_str_iff: "includes_str s q = (\<exists>pre post. s = pre @ q @ post)"
proof (induction s)
  case Nil
  then show ?case by simp
next
  case (Cons c cs)
  show ?case
  proof
    assume "includes_str (c # cs) q"
    then consider "startsWith (c # cs) q" | "includes_str cs q" by auto
    then show "\<exists>pre post. c # cs = pre @ q @ post"
    proof cases
      case 1
      then obtain post where "c # cs = q @ post" by (auto simp: startsWith_iff)
      then have "c # cs = [] @ q @ post" by simp
      then show ?thesis by blast
    next
      case 2
      with Cons.IH obtain pre post where "cs = pre @ q @ post" by blast
      then have "c # cs = (c # pre) @ q @ post" by simp
      then show ?thesis by blast
    qed
  next
    assume "\<exists>pre post. c # cs = pre @ q @ post"
    then obtain pre post where e: "c # cs = pre @ q @ post" by blast
    show "includes_str (c # cs) q"
    proof (cases pre)
      case Nil
      with e have "startsWith (c # cs) q" by (auto simp: startsWith_iff)
      then show ?thesis by simp
    next
      case (Cons p ps)
      with e have "cs = ps @ q @ post" by simp
      with Cons.IH have "includes_str cs q" by blast
      then show ?thesis by simp
    qed
  qed
qed

lemma combo_ready_typed: "combo_ready e (typed_provider t a) = combo_ready e a"
  by (simp add: combo_ready_def typed_provider_def getElementById_type_into_same)

lemma check_provider: "el_id el = ''provider-input'' \<Longrightarrow> check e cs el = Inr (isNonEmpty (trim (el_value el)))"
  by (simp add: check_def Let_def)

lemma validateField_provider:
  "el_id el = ''provider-input'' \<Longrightarrow>
     validateField e cs (Some el) m
       = (Inr (isNonEmpty (trim (el_value el))),
          set_mark ''provider-input'' (isNonEmpty (trim (el_value el))) m)"
  by (simp add: validateField_def validate_one_def check_provider)

text \<open>What the listener does with a typed text, once the combobox is set up.\<close>

lemma onProviderInput_typed:
  assumes ready: "combo_ready e a"
  shows "onProviderInput e (typed_provider t a) =
      (Completed,
       persist e True
         ((if filter (\<lambda>p. includes_str (toLowerCase p) (toLowerCase (trim t))) PROVIDERS \<noteq> []
           then openProviderList else closeProviderList)
            (renderProviderList
               (filter (\<lambda>p. includes_str (toLowerCase p) (toLowerCase (trim t))) PROVIDERS)
               ((typed_provider t a)
                \<lparr>providerFiltered :=
                   filter (\<lambda>p. includes_str (toLowerCase p) (toLowerCase (trim t))) PROVIDERS\<rparr>))
          \<lparr>data := syncState ''provider'' t (data (typed_provider t a)),
            marks := set_mark ''provider-input'' (isNonEmpty (trim t))
                       (marks (typed_provider t a))\<rparr>))"
proof -
  let ?a = "typed_provider t a"
  from ready obtain pi0 where pi0: "getElementById (controls a) ''provider-input'' = Some pi0"
    by (auto simp: combo_ready_def)
  let ?pi = "pi0\<lparr>el_value := t\<rparr>"
  have g: "getElementById (controls ?a) ''provider-input'' = Some ?pi"
    using pi0 by (simp add: typed_provider_def getElementById_type_into_same)
  have ip: "el_id ?pi = ''provider-input''"
    using getElementById_id [OF pi0] by simp
  have r: "combo_ready e ?a" using ready by (simp add: combo_ready_typed)
  show ?thesis
    using g r ip
    by (simp add: onProviderInput_def Let_def validateField_provider
        openProviderList_def closeProviderList_def renderProviderList_def)
qed

text \<open>
  Claim C7, as amended. After a text is typed into the provider input of a page whose
  combobox is set up, the filtered list, and the rendered one, is the catalog entries whose
  name contains the trimmed text case-insensitively, in the order of the catalog; when
  there is such an entry the first one is active and the list is open, otherwise no option
  is active and the list is closed; and typing \<open>Allianz\<close> leaves the one entry \<open>Allianz\<close>.
\<close>

theorem C7_filtered_list:
  assumes ready: "combo_ready e a"
  shows
    "fst (onProviderInput e (typed_provider t a)) = Completed \<and>
     providerFiltered (snd (onProviderInput e (typed_provider t a)))
       = filter (\<lambda>p. contains_ci p (trim t)) PROVIDERS \<and>
     options (snd (onProviderInput e (typed_provider t a)))
       = filter (\<lambda>p. contains_ci p (trim t)) PROVIDERS \<and>
     (filter (\<lambda>p. contains_ci p (trim t)) PROVIDERS \<noteq> [] \<longrightarrow>
        providerActiveId (snd (onProviderInput e (typed_provider t a))) = Some 0 \<and>
        listOpen (snd (onProviderInput e (typed_provider t a)))) \<and>
     (filter (\<lambda>p. contains_ci p (trim t)) PROVIDERS = [] \<longrightarrow>
        providerActiveId (snd (onProviderInput e (typed_provider t a))) = None \<and>
        \<not> listOpen (snd (onProviderInput e (typed_provider t a)))) \<and>
     (t = ''Allianz'' \<longrightarrow>
        providerFiltered (snd (onProviderInput e (typed_provider t a))) = [''Allianz''])"
proof -
  let ?f = "filter (\<lambda>p. contains_ci p (trim t)) PROVIDERS"
  have ff: "filter (\<lambda>p. includes_str (toLowerCase p) (toLowerCase (trim t))) PROVIDERS = ?f"
    by (simp add: contains_ci_def includes_str_iff)
  have alz: "filter (\<lambda>p. includes_str (toLowerCase p) (toLowerCase (trim ''Allianz''))) PROVIDERS
      = [''Allianz'']" by code_simp
  have p6: "t = ''Allianz'' \<longrightarrow> ?f = [''Allianz'']"
    using alz ff by auto
  show ?thesis
    unfolding onProviderInput_typed [OF ready] ff using p6
    by (simp add: persist_fields openProviderList_def closeProviderList_def
        renderProviderList_def)
qed

text \<open>
  Claim C7, two instances on the sample page: \<open>Allianz\<close> opens the list on its one entry,
  and \<open>zzz\<close>, which no name contains, empties and closes the list.
\<close>

theorem C7_filtered_list_witness:
  "combo_ready env0 (initial form_ok NoItem False) \<and>
   filter (\<lambda>p. contains_ci p (trim ''Allianz'')) PROVIDERS \<noteq> [] \<and>
   providerFiltered (snd (onProviderInput env0
      (typed_provider ''Allianz'' (initial form_ok NoItem False)))) = [''Allianz''] \<and>
   providerActiveId (snd (onProviderInput env0
      (typed_provider ''Allianz'' (initial form_ok NoItem False)))) = Some 0 \<and>
   listOpen (snd (onProviderInput env0
      (typed_provider ''Allianz'' (initial form_ok NoItem False)))) \<and>
   filter (\<lambda>p. contains_ci p (trim ''zzz'')) PROVIDERS = [] \<and>
   options (snd (onProviderInput env0
      (typed_provider ''zzz'' (initial form_ok NoItem True)))) = [] \<and>
   providerActiveId (snd (onProviderInput env0
      (typed_provider ''zzz'' (initial form_ok NoItem True)))) = None \<and>
   \<not> listOpen (snd (onProviderInput env0
      (typed_provider ''zzz'' (initial form_ok NoItem True))))"
proof -
  have r1: "combo_ready env0 (initial form_ok NoItem False)" by code_simp
  have r2: "combo_ready env0 (initial form_ok NoItem True)" by code_simp
  have "filter (\<lambda>p. includes_str (toLowerCase p) (toLowerCase (trim ''Allianz''))) PROVIDERS
      \<noteq> []" by code_simp
  then have f1: "filter (\<lambda>p. contains_ci p (trim ''Allianz'')) PROVIDERS \<noteq> []"
    by (simp add: contains_ci_def includes_str_iff)
  have "filter (\<lambda>p. includes_str (toLowerCase p) (toLowerCase (trim ''zzz''))) PROVIDERS = []"
    by code_simp
  then have f2: "filter (\<lambda>p. contains_ci p (trim ''zzz'')) PROVIDERS = []"
    by (simp add: contains_ci_def includes_str_iff)
  note a = C7_filtered_list [OF r1, of "''Allianz''"]
  note z = C7_filtered_list [OF r2, of "''zzz''"]
  from a f1 have a': "providerFiltered (snd (onProviderInput env0
      (typed_provider ''Allianz'' (initial form_ok NoItem False)))) = [''Allianz'']"
    "providerActiveId (snd (onProviderInput env0
      (typed_provider ''Allianz'' (initial form_ok NoItem False)))) = Some 0"
    "listOpen (snd (onProviderInput env0
      (typed_provider ''Allianz'' (initial form_ok NoItem False))))"
    by blast+
  from z f2 have z': "options (snd (onProviderInput env0
      (typed_provider ''zzz'' (initial form_ok NoItem True)))) = []"
    "providerActiveId (snd (onProviderInput env0
      (typed_provider ''zzz'' (initial form_ok NoItem True)))) = None"
    "\<not> listOpen (snd (onProviderInput env0
      (typed_provider ''zzz'' (initial form_ok NoItem True))))"
    by (metis)+
  from r1 f1 f2 a' z' show ?thesis by blast
qed

text \<open>
  Claim C7 as stated fails: after \<open>Bupa\<close> and a space are typed the list holds \<open>Bupa\<close>,
  whose name does not contain the typed text.
\<close>

theorem C7_untrimmed_filter_counterexample:
  "providerFiltered (snd (onProviderInput env0
      (typed_provider ''Bupa '' (initial form_ok NoItem False)))) = [''Bupa''] \<and>
   \<not> includes_str (toLowerCase ''Bupa'') (toLowerCase ''Bupa '')"
  by code_simp

subsection \<open>Back\<close>

lemma handleBack_completes:
  assumes "all_steps e"
    and "\<not> bad_selector
           (clamp (math_max (Fin 1) (case h of Some n \<Rightarrow> n | None \<Rightarrow> num_add (step a) (- 1))))"
  shows "fst (handleBack e h a) = Completed \<and>
         step (snd (handleBack e h a)) =
           clamp (math_max (Fin 1) (case h of Some n \<Rightarrow> n | None \<Rightarrow> num_add (step a) (- 1)))"
  by (simp add: handleBack_def Let_def goToStep_completes [OF assms] persist_fields
      announcePolite_fields)

lemma handleBack_controls:
  "fst (handleBack e h (a\<lparr>controls := cs\<rparr>)) = fst (handleBack e h a) \<and>
   step (snd (handleBack e h (a\<lparr>controls := cs\<rparr>))) = step (snd (handleBack e h a))"
  by (cases h)
     (simp_all add: handleBack_def Let_def goToStep_def persist_fields announcePolite_fields)

text \<open>
  Claim C8, as amended. From step \<open>N\<close> in 2..4 and with a Back button whose target hint is
  absent or a number not above \<open>N\<close>: \<open>Back\<close> leaves a step between 1 and \<open>N\<close>; on a page
  with the four step containers it runs to its end when the hint is absent, and the step is
  then \<open>N - 1\<close>, or when the hint is an integer or at most 1; with any other hint, a
  fraction above 1, it throws on the selector of the Back button and the step stays \<open>N\<close>;
  and neither its outcome nor the step depend on the values of the controls.
\<close>

theorem C8_back_never_gated:
  assumes st: "step a = Fin N" and N: "N = 2 \<or> N = 3 \<or> N = 4"
    and h: "hint_at_most h N"
  shows
    "(\<exists>r. step (snd (handleBack e h a)) = Fin r \<and> 1 \<le> r \<and> r \<le> N) \<and>
     (all_steps e \<and> hint_whole h \<longrightarrow> fst (handleBack e h a) = Completed) \<and>
     (all_steps e \<and> h = None \<longrightarrow>
        fst (handleBack e h a) = Completed \<and> step (snd (handleBack e h a)) = Fin (N - 1)) \<and>
     (\<not> hint_whole h \<longrightarrow>
        fst (handleBack e h a) = Raised SyntaxError \<and> step (snd (handleBack e h a)) = Fin N) \<and>
     (\<forall>cs. fst (handleBack e h (a\<lparr>controls := cs\<rparr>)) = fst (handleBack e h a) \<and>
           step (snd (handleBack e h (a\<lparr>controls := cs\<rparr>))) = step (snd (handleBack e h a)))"
proof -
  let ?t = "math_max (Fin 1) (case h of Some n \<Rightarrow> n | None \<Rightarrow> num_add (step a) (- 1))"
  obtain p where p: "(case h of Some n \<Rightarrow> n | None \<Rightarrow> num_add (step a) (- 1)) = Fin p" "p \<le> N"
    "h = None \<longrightarrow> p = N - 1"
    using h st by (cases h) (auto simp: hint_at_most_def split: jsnum.splits)
  define m where "m = min (max (max 1 p) 1) 4"
  have c: "clamp ?t = Fin m"
    by (simp add: p(1) clamp_fin m_def)
  have b: "1 \<le> m" "m \<le> N"
    using p(2) N by (auto simp: m_def)
  have n: "h = None \<longrightarrow> m = N - 1"
    using p(3) N by (auto simp: m_def)
  have whole: "\<not> bad_selector (Fin m)" if "hint_whole h"
  proof (cases h)
    case None
    with n N show ?thesis by (auto simp: bad_selector_def)
  next
    case (Some q)
    with p(1) have q: "q = Fin p" by simp
    with that Some have "of_int \<lfloor>p\<rfloor> = p \<or> p \<le> 1" by (simp add: hint_whole_def)
    then have "m = 1 \<or> m = 4 \<or> (m = p \<and> of_int \<lfloor>p\<rfloor> = p)"
      by (auto simp: m_def min_def max_def)
    then show ?thesis by (auto simp: bad_selector_def)
  qed
  have p1: "\<exists>r. step (snd (handleBack e h a)) = Fin r \<and> 1 \<le> r \<and> r \<le> N"
  proof -
    from handleBack_step [of e h a] c
    have "step (snd (handleBack e h a)) = Fin N \<or> step (snd (handleBack e h a)) = Fin m"
      using st by auto
    with b N show ?thesis by auto
  qed
  have p2: "fst (handleBack e h a) = Completed \<and> step (snd (handleBack e h a)) = Fin m"
    if "all_steps e" "hint_whole h"
    using handleBack_completes [where e = e and h = h and a = a] that(1) whole [OF that(2)] c by simp
  have hn: "hint_whole None" by (simp add: hint_whole_def)
  have p3: "all_steps e \<and> h = None \<longrightarrow>
        fst (handleBack e h a) = Completed \<and> step (snd (handleBack e h a)) = Fin (N - 1)"
    using p2 hn n by auto
  have p4: "\<forall>cs. fst (handleBack e h (a\<lparr>controls := cs\<rparr>)) = fst (handleBack e h a) \<and>
           step (snd (handleBack e h (a\<lparr>controls := cs\<rparr>))) = step (snd (handleBack e h a))"
    using handleBack_controls by blast
  have p5: "fst (handleBack e h a) = Raised SyntaxError \<and> step (snd (handleBack e h a)) = Fin N"
    if "\<not> hint_whole h"
  proof -
    from that h obtain q where q: "h = Some (Fin q)" "q \<le> N" "of_int \<lfloor>q\<rfloor> \<noteq> q" "1 < q"
      by (cases h) (auto simp: hint_whole_def hint_at_most_def split: jsnum.splits)
    from q N have t: "min (max 1 q) totalSteps = q"
      by (auto simp: totalSteps_def min_def max_def)
    have "step_index (Fin q) = None"
      using q(3) by (auto simp: step_index_def)
    then have d: "steps_at e (Fin q) = Document" by (simp add: steps_at_def)
    have b: "bad_selector (Fin q)" using q(3) by (simp add: bad_selector_def)
    show ?thesis
      using st by (simp add: handleBack_def goToStep_def Let_def q(1) t d b announcePolite_fields)
  qed
  from p1 p2 p3 p4 p5 show ?thesis by blast
qed

text \<open>
  Claim C8, instances on the sample page: \<open>Back\<close> from step 3 of the invalid sample form,
  without a hint, ends on step 2; with the hint 1 it runs to its end; with the hint 2.5 it
  throws and the step stays 3.
\<close>

theorem C8_back_never_gated_witness:
  "step ((initial form_bad NoItem False)\<lparr>step := Fin 3\<rparr>) = Fin 3 \<and>
   all_steps env0 \<and> hint_at_most None 3 \<and> hint_at_most (Some (Fin 1)) 3 \<and>
   hint_whole (Some (Fin 1)) \<and>
   fst (handleBack env0 None ((initial form_bad NoItem False)\<lparr>step := Fin 3\<rparr>)) = Completed \<and>
   step (snd (handleBack env0 None ((initial form_bad NoItem False)\<lparr>step := Fin 3\<rparr>))) = Fin 2 \<and>
   fst (handleBack env0 (Some (Fin 1)) ((initial form_bad NoItem False)\<lparr>step := Fin 3\<rparr>))
     = Completed \<and>
   hint_at_most (Some (Fin (5 / 2))) 3 \<and> \<not> hint_whole (Some (Fin (5 / 2))) \<and>
   fst (handleBack env0 (Some (Fin (5 / 2))) ((initial form_bad NoItem False)\<lparr>step := Fin 3\<rparr>))
     = Raised SyntaxError \<and>
   step (snd (handleBack env0 (Some (Fin (5 / 2)))
                ((initial form_bad NoItem False)\<lparr>step := Fin 3\<rparr>))) = Fin 3"
proof -
  let ?a = "(initial form_bad NoItem False)\<lparr>step := Fin 3\<rparr>"
  have pg: "all_steps env0" by (simp add: all_steps_def env0_def)
  have h0: "hint_at_most None 3" by (simp add: hint_at_most_def)
  have h1: "hint_at_most (Some (Fin 1)) 3" by (simp add: hint_at_most_def)
  have w1: "hint_whole (Some (Fin 1))" by (simp add: hint_whole_def)
  have st: "step ?a = Fin 3" by simp
  have N: "(3::rat) = 2 \<or> (3::rat) = 3 \<or> (3::rat) = 4" by simp
  from C8_back_never_gated [OF st N h0, of env0] pg
  have r0: "fst (handleBack env0 None ?a) = Completed"
    "step (snd (handleBack env0 None ?a)) = Fin (3 - 1)" by blast+
  then have r0': "step (snd (handleBack env0 None ?a)) = Fin 2" by simp
  from C8_back_never_gated [OF st N h1, of env0] pg w1
  have r1: "fst (handleBack env0 (Some (Fin 1)) ?a) = Completed" by blast
  have h2: "hint_at_most (Some (Fin (5 / 2))) 3" by (simp add: hint_at_most_def)
  have w2: "\<not> hint_whole (Some (Fin (5 / 2)))" by code_simp
  from C8_back_never_gated [OF st N h2, of env0] w2
  have r2: "fst (handleBack env0 (Some (Fin (5 / 2))) ?a) = Raised SyntaxError"
    "step (snd (handleBack env0 (Some (Fin (5 / 2))) ?a)) = Fin 3" by blast+
  from st pg h0 h1 w1 r0(1) r0' r1 h2 w2 r2 show ?thesis by blast
qed

text \<open>
  Claim C8 as stated fails: a Back button of step 2 whose hint is 4 leads to step 4;
  without the container of step 1 \<open>Back\<close> from step 2 throws; and with the hint 1.5 it
  throws on the selector of the Back button of the new step.
\<close>

theorem C8_back_counterexample:
  "step (snd (handleBack env0 (Some (Fin 4))
                ((initial form_ok NoItem False)\<lparr>step := Fin 2\<rparr>))) = Fin 4 \<and>
   fst (handleBack env_no_step1 None ((initial form_ok NoItem False)\<lparr>step := Fin 2\<rparr>))
     = Raised TypeError \<and>
   fst (handleBack env0 (Some (Fin (3 / 2))) ((initial form_ok NoItem False)\<lparr>step := Fin 2\<rparr>))
     = Raised SyntaxError"
  by code_simp

subsection \<open>Committing a provider\<close>

lemma text_value_catalog: "p \<in> set PROVIDERS \<Longrightarrow> text_value p = p"
proof -
  have "\<forall>p \<in> set PROVIDERS. text_value p = p" by code_simp
  then show "p \<in> set PROVIDERS \<Longrightarrow> text_value p = p" by blast
qed

lemma getElementById_set_text_same:
  "getElementById (set_text i t cs) i
     = map_option (\<lambda>el. el\<lparr>el_value := text_value t\<rparr>) (getElementById cs i)"
  by (induction cs) (auto simp: getElementById_def)

lemma syncState_sets:
  "k \<in> fst ` set d \<Longrightarrow> k \<noteq> ''__proto__'' \<Longrightarrow> map_of (syncState k v d) k = Some (JStr v)"
  by (auto simp: syncState_def update_conv')

lemma selectProvider_result:
  assumes pi0: "getElementById (controls a) ''provider-input'' = Some pi0"
  shows "selectProvider e txt a =
    (Completed,
     closeProviderList
       (persist e True
          (a\<lparr>controls := set_text ''provider-input'' txt (controls a),
             data := syncState ''provider'' (text_value txt) (data a),
             marks := set_mark ''provider-input'' (isNonEmpty (trim (text_value txt)))
                        (marks a)\<rparr>)))"
proof -
  let ?pi = "pi0\<lparr>el_value := text_value txt\<rparr>"
  have g: "getElementById (set_text ''provider-input'' txt (controls a)) ''provider-input''
      = Some ?pi"
    using pi0 by (simp add: getElementById_set_text_same)
  have ip: "el_id ?pi = ''provider-input''" using getElementById_id [OF pi0] by simp
  show ?thesis
    using g ip by (simp add: selectProvider_def Let_def validateField_provider)
qed

lemma selectProvider_catalog:
  assumes ready: "combo_ready e a" and key: "''provider'' \<in> fst ` set (data a)"
    and p: "p \<in> set PROVIDERS"
  shows "provider_in_catalog (snd (selectProvider e p a)) \<and>
         options (snd (selectProvider e p a)) = options a \<and>
         providerFiltered (snd (selectProvider e p a)) = providerFiltered a \<and>
         fst (selectProvider e p a) = Completed"
proof -
  from ready obtain pi0 where pi0: "getElementById (controls a) ''provider-input'' = Some pi0"
    by (auto simp: combo_ready_def)
  have "map_of (syncState ''provider'' p (data a)) ''provider'' = Some (JStr p)"
    using key by (simp add: syncState_sets)
  with p show ?thesis
    unfolding selectProvider_result [OF pi0]
    by (auto simp: provider_in_catalog_def closeProviderList_def persist_fields
        text_value_catalog)
qed

lemma subseq_member: "subseq xs ys \<Longrightarrow> i < length xs \<Longrightarrow> xs ! i \<in> set ys"
proof -
  assume s: "subseq xs ys" and i: "i < length xs"
  from i have "xs ! i \<in> set xs" by simp
  with s show ?thesis by (auto dest: list_emb_set)
qed

lemma active_index_bound:
  "options a \<noteq> [] \<Longrightarrow>
     (if active_index a \<ge> 0 then nat (active_index a) else 0) < length (options a)"
  by (auto simp: active_index_def split: option.splits)

lemma keydown_enter_commits:
  assumes ready: "combo_ready e a" and opened: "listOpen a" and ne: "options a \<noteq> []"
  shows "onProviderKeydown e Enter a =
           selectProvider e (options a ! (if active_index a \<ge> 0 then nat (active_index a) else 0)) a"
  using assms by (simp add: onProviderKeydown_def Let_def)

lemma keydown_other_data:
  assumes ready: "combo_ready e a"
  shows "k \<noteq> Enter \<or> \<not> (listOpen a \<and> options a \<noteq> []) \<Longrightarrow>
     data (snd (onProviderKeydown e k a)) = data a"
  by (cases k)
     (auto simp: onProviderKeydown_def Let_def openProviderList_def closeProviderList_def
        moveProviderActive_def)

lemma keydown_options:
  assumes ready: "combo_ready e a"
  shows "options (snd (onProviderKeydown e k a)) = options a \<and>
         providerFiltered (snd (onProviderKeydown e k a)) = providerFiltered a"
proof -
  from ready obtain pi0 where pi0: "getElementById (controls a) ''provider-input'' = Some pi0"
    by (auto simp: combo_ready_def)
  show ?thesis
    by (cases k)
       (auto simp: onProviderKeydown_def Let_def openProviderList_def closeProviderList_def
          moveProviderActive_def selectProvider_result [OF pi0] persist_fields)
qed

text \<open>
  Claim C10, as amended. In a state whose rendered options and filtered list are taken from
  the catalog, with the combobox set up and \<open>provider\<close> among the fields of \<open>state.data\<close>:
  \<open>Enter\<close> on the open list with at least one option, and a click on a rendered option,
  leave a name of the catalog in \<open>state.data.provider\<close>; every other key, \<open>Enter\<close> on a
  closed list or on an open list without options, the toggle and a click outside leave
  \<open>state.data\<close> as it is; typing stores the typed text as it is; and every operation of the
  combobox, typing included, keeps the options and the filtered list taken from the
  catalog, as they are when the script is loaded.
\<close>

theorem C10_commit_stores_catalog_entry:
  assumes inv: "from_catalog a" and ready: "combo_ready e a"
    and key: "''provider'' \<in> fst ` set (data a)"
  shows
    "(listOpen a \<and> options a \<noteq> [] \<longrightarrow>
        provider_in_catalog (snd (onProviderKeydown e Enter a))) \<and>
     (i < length (options a) \<longrightarrow> provider_in_catalog (snd (clickOption e i a))) \<and>
     (k \<noteq> Enter \<or> \<not> (listOpen a \<and> options a \<noteq> []) \<longrightarrow>
        data (snd (onProviderKeydown e k a)) = data a) \<and>
     data (onProviderToggle e a) = data a \<and>
     data (snd (onOutsideClick e a)) = data a \<and>
     from_catalog (snd (onProviderKeydown e k a)) \<and>
     from_catalog (snd (clickOption e i a)) \<and>
     map_of (data (snd (onProviderInput e (typed_provider t a)))) ''provider'' = Some (JStr t) \<and>
     from_catalog (snd (onProviderInput e (typed_provider t a))) \<and>
     from_catalog (onProviderToggle e a) \<and>
     from_catalog (snd (onOutsideClick e a)) \<and>
     from_catalog (initProviderCombobox e a) \<and>
     from_catalog (initial cs st opened)"
proof -
  from ready obtain pi0 where pi0: "getElementById (controls a) ''provider-input'' = Some pi0"
    by (auto simp: combo_ready_def)
  from inv have so: "subseq (options a) PROVIDERS" and sf: "subseq (providerFiltered a) PROVIDERS"
    by (simp_all add: from_catalog_def)
  have p1: "provider_in_catalog (snd (onProviderKeydown e Enter a))"
    if "listOpen a" "options a \<noteq> []"
  proof -
    let ?j = "if active_index a \<ge> 0 then nat (active_index a) else 0"
    have "options a ! ?j \<in> set PROVIDERS"
      using subseq_member [OF so active_index_bound [OF that(2)]] .
    from selectProvider_catalog [OF ready key this] keydown_enter_commits [OF ready that]
    show ?thesis by simp
  qed
  have p2: "provider_in_catalog (snd (clickOption e i a))" if "i < length (options a)"
  proof -
    have "options a ! i \<in> set PROVIDERS" using subseq_member [OF so that] .
    from selectProvider_catalog [OF ready key this] that ready
    show ?thesis by (simp add: clickOption_def)
  qed
  have p3: "k \<noteq> Enter \<or> \<not> (listOpen a \<and> options a \<noteq> []) \<longrightarrow>
        data (snd (onProviderKeydown e k a)) = data a"
    using keydown_other_data [OF ready] by blast
  have p4: "data (onProviderToggle e a) = data a"
    by (simp add: onProviderToggle_def openProviderList_def closeProviderList_def)
  have p5: "data (snd (onOutsideClick e a)) = data a"
    by (simp add: onOutsideClick_def closeProviderList_def)
  have p6: "from_catalog (snd (onProviderKeydown e k a))"
    using keydown_options [OF ready, of k] inv by (simp add: from_catalog_def)
  have p7: "from_catalog (snd (clickOption e i a))"
    using inv by (simp add: clickOption_def selectProvider_result [OF pi0] from_catalog_def
        closeProviderList_def persist_fields)
  have p8: "from_catalog (snd (onProviderInput e (typed_provider t a)))"
    unfolding onProviderInput_typed [OF ready]
    by (simp add: from_catalog_def persist_fields openProviderList_def closeProviderList_def
        renderProviderList_def)
  have p9: "from_catalog (onProviderToggle e a)"
    using inv by (simp add: onProviderToggle_def openProviderList_def closeProviderList_def
        from_catalog_def)
  have p10: "from_catalog (snd (onOutsideClick e a))"
    using inv by (simp add: onOutsideClick_def closeProviderList_def from_catalog_def)
  have p11: "from_catalog (initProviderCombobox e a)"
    using inv by (simp add: initProviderCombobox_def renderProviderList_def from_catalog_def)
  have p12: "from_catalog (initial cs st opened)"
    by (simp add: initial_def from_catalog_def)
  have p13: "map_of (data (snd (onProviderInput e (typed_provider t a)))) ''provider''
      = Some (JStr t)"
    unfolding onProviderInput_typed [OF ready]
    using key by (simp add: persist_fields typed_provider_def syncState_sets)
  from p1 p2 p3 p4 p5 p6 p7 p8 p9 p10 p11 p12 p13 show ?thesis by blast
qed

text \<open>
  Claim C10, an instance: on the sample page with the whole catalog listed, \<open>Enter\<close>
  stores the first name and a click on the seventh option stores \<open>Allianz\<close>.
\<close>

theorem C10_commit_stores_catalog_entry_witness:
  "from_catalog combo_opened \<and> combo_ready env0 combo_opened \<and>
   ''provider'' \<in> fst ` set (data combo_opened) \<and>
   listOpen combo_opened \<and> options combo_opened \<noteq> [] \<and> 6 < length (options combo_opened) \<and>
   ArrowDown \<noteq> Enter \<and>
   provider_in_catalog (snd (onProviderKeydown env0 Enter combo_opened)) \<and>
   map_of (data (snd (onProviderKeydown env0 Enter combo_opened))) ''provider''
     = Some (JStr ''SIGMA Health'') \<and>
   provider_in_catalog (snd (clickOption env0 6 combo_opened)) \<and>
   map_of (data (snd (clickOption env0 6 combo_opened))) ''provider'' = Some (JStr ''Allianz'') \<and>
   data (snd (onProviderKeydown env0 ArrowDown combo_opened)) = data combo_opened"
proof -
  have o: "options combo_opened = PROVIDERS" "providerFiltered combo_opened = PROVIDERS"
    by code_simp+
  then have inv: "from_catalog combo_opened" by (simp add: from_catalog_def)
  have ready: "combo_ready env0 combo_opened" by code_simp
  have "''provider'' \<in> set (map fst (data combo_opened))" by code_simp
  then have key: "''provider'' \<in> fst ` set (data combo_opened)" by simp
  have opened: "listOpen combo_opened" "options combo_opened \<noteq> []"
    "6 < length (options combo_opened)" by code_simp+
  have k: "ArrowDown \<noteq> Enter" by simp
  have v: "map_of (data (snd (onProviderKeydown env0 Enter combo_opened))) ''provider''
     = Some (JStr ''SIGMA Health'')"
    "map_of (data (snd (clickOption env0 6 combo_opened))) ''provider'' = Some (JStr ''Allianz'')"
    by code_simp+
  note t = C10_commit_stores_catalog_entry [OF inv ready key, of 6 ArrowDown]
  from t opened k have
    "provider_in_catalog (snd (onProviderKeydown env0 Enter combo_opened))"
    "provider_in_catalog (snd (clickOption env0 6 combo_opened))"
    "data (snd (onProviderKeydown env0 ArrowDown combo_opened)) = data combo_opened"
    by blast+
  with inv ready key opened k v show ?thesis by blast
qed

text \<open>
  Claim C10 as stated fails. On the sample page, after \<open>zzz\<close> has been typed and \<open>ArrowDown\<close>
  has opened the list, which has no option, \<open>Enter\<close> returns and \<open>state.data.provider\<close> is
  still \<open>zzz\<close>. And typing is not the only writer of a value outside the catalog: the
  restore of the entry \<open>{"data": {"provider": "Acme"}}\<close> stores \<open>Acme\<close>, and the reset after
  a submission stores the empty string.
\<close>

theorem C10_empty_popup_counterexample:
  "listOpen combo_no_match \<and> options combo_no_match = [] \<and>
   fst (onProviderKeydown env0 Enter combo_no_match) = Completed \<and>
   map_of (data (snd (onProviderKeydown env0 Enter combo_no_match))) ''provider''
     = Some (JStr ''zzz'') \<and>
   ''zzz'' \<notin> set PROVIDERS \<and>
   map_of (data (snd (restoreFromStorage env0 (initial form_ok rec_provider_acme False))))
     ''provider'' = Some (JStr ''Acme'') \<and>
   ''Acme'' \<notin> set PROVIDERS \<and>
   map_of (data (snd (submitted env0 (snd (clickOption env0 6 combo_opened))))) ''provider''
     = Some (JStr []) \<and>
   [] \<notin> set PROVIDERS"
  by code_simp

subsection \<open>Adding an allergy twice\<close>

lemma map_of_update_same: "map_of (AList.update k v d) k = Some v"
  by (simp add: update_conv')

lemma occurs_once:
  "distinct xs \<Longrightarrow> v \<in> set xs \<Longrightarrow> length (filter (\<lambda>x. x = v) xs) = 1"
  by (induction xs) (auto simp: filter_empty_conv)

lemma distinct_without:
  "distinct xs \<Longrightarrow> distinct (take i xs @ drop (Suc i) xs)"
proof -
  assume d: "distinct xs"
  have "set (take i xs) \<inter> set (drop (Suc i) xs) \<subseteq> set (take i xs) \<inter> set (drop i xs)"
    using set_drop_subset_set_drop [of i "Suc i" xs] by auto
  moreover have "set (take i xs) \<inter> set (drop i xs) = {}"
    using d by (metis append_take_drop_id distinct_append)
  ultimately show ?thesis using d by auto
qed

text \<open>
  Claim C9, as amended. With an array of allergies in \<open>state.data\<close> and a text in the
  allergy input that is not only white space: when the trimmed text is already in the
  array, compared as a string, \<open>addAllergyFromInput\<close> runs to its end, leaves \<open>state.data\<close>
  and the storage entry as they are and gives the notice \<open>Allergy already added.\<close> to the
  polite live region, and the text occurs once if the array has no duplicates; when it is
  not in the array it is appended; and an array without duplicates is one after an addition
  and after the removal of a chip. Nothing is said of an array that has duplicates, as one
  restored from storage may.
\<close>

theorem C9_duplicate_allergy_rejected:
  assumes al: "map_of (data a) ''allergies'' = Some (JArr xs)"
    and inp: "getElementById (controls a) ''allergyInput'' = Some inp"
    and val: "trim (el_value inp) \<noteq> []"
  shows
    "(JStr (trim (el_value inp)) \<in> set xs \<longrightarrow>
        fst (addAllergyFromInput e a) = Completed \<and>
        data (snd (addAllergyFromInput e a)) = data a \<and>
        storage (snd (addAllergyFromInput e a)) = storage a \<and>
        polite (snd (addAllergyFromInput e a))
          = polite a @ (if has_el e ''live-region-polite'' then [''Allergy already added.'']
                        else []) \<and>
        (distinct xs \<longrightarrow> length (filter (\<lambda>x. x = JStr (trim (el_value inp))) xs) = 1)) \<and>
     (JStr (trim (el_value inp)) \<notin> set xs \<longrightarrow>
        map_of (data (snd (addAllergyFromInput e a))) ''allergies''
          = Some (JArr (xs @ [JStr (trim (el_value inp))]))) \<and>
     (distinct xs \<longrightarrow>
        (\<exists>ys. map_of (data (snd (addAllergyFromInput e a))) ''allergies'' = Some (JArr ys) \<and>
              distinct ys) \<and>
        (\<exists>ys. map_of (data (snd (removeAllergy e i a))) ''allergies'' = Some (JArr ys) \<and>
              distinct ys))"
proof -
  let ?v = "JStr (trim (el_value inp))"
  have dup: "addAllergyFromInput e a =
      (Completed,
       (announcePolite e ''Allergy already added.'' a)
       \<lparr>controls := set_text ''allergyInput'' [] (controls a)\<rparr>)"
    if "?v \<in> set xs"
    using al inp val that by (simp add: addAllergyFromInput_def Let_def)
  have new: "data (snd (addAllergyFromInput e a))
      = AList.update ''allergies'' (JArr (xs @ [?v])) (data a)"
    if "?v \<notin> set xs"
    using al inp val that by (simp add: addAllergyFromInput_def Let_def persist_fields)
  have p1: "fst (addAllergyFromInput e a) = Completed \<and>
        data (snd (addAllergyFromInput e a)) = data a \<and>
        storage (snd (addAllergyFromInput e a)) = storage a \<and>
        polite (snd (addAllergyFromInput e a))
          = polite a @ (if has_el e ''live-region-polite'' then [''Allergy already added.'']
                        else [])"
    if "?v \<in> set xs"
    unfolding dup [OF that] by (simp add: announcePolite_def)
  have p1': "length (filter (\<lambda>x. x = ?v) xs) = 1" if "?v \<in> set xs" "distinct xs"
    using that by (simp add: occurs_once)
  have p2: "map_of (data (snd (addAllergyFromInput e a))) ''allergies'' = Some (JArr (xs @ [?v]))"
    if "?v \<notin> set xs"
    by (simp add: new [OF that] map_of_update_same)
  have p3: "\<exists>ys. map_of (data (snd (addAllergyFromInput e a))) ''allergies'' = Some (JArr ys) \<and>
              distinct ys" if d: "distinct xs"
  proof (cases "?v \<in> set xs")
    case True
    with p1 [OF True] al d show ?thesis by simp
  next
    case False
    with p2 [OF False] d show ?thesis by simp
  qed
  have rm: "data (snd (removeAllergy e i a))
      = AList.update ''allergies'' (JArr (take i xs @ drop (Suc i) xs)) (data a)"
    using al by (simp add: removeAllergy_def Let_def persist_fields)
  have p4: "\<exists>ys. map_of (data (snd (removeAllergy e i a))) ''allergies'' = Some (JArr ys) \<and>
              distinct ys" if d: "distinct xs"
  proof -
    have "distinct (take i xs @ drop (Suc i) xs)"
      using d by (rule distinct_without)
    then show ?thesis by (simp add: rm map_of_update_same)
  qed
  from p1 p1' p2 p3 p4 show ?thesis by blast
qed

text \<open>
  Claim C9, two instances on the sample page with the allergy \<open>nuts\<close>: adding \<open>nuts\<close>
  again, typed between spaces, changes nothing and gives the notice; adding \<open>Nuts\<close>, which
  differs by its case, appends it.
\<close>

theorem C9_duplicate_allergy_rejected_witness:
  "map_of (data (typed_allergy '' nuts '' one_allergy)) ''allergies'' = Some (JArr [JStr ''nuts'']) \<and>
   getElementById (controls (typed_allergy '' nuts '' one_allergy)) ''allergyInput''
     = Some (ctl ''allergyInput'' '' nuts '' 3) \<and>
   trim (el_value (ctl ''allergyInput'' '' nuts '' 3)) \<noteq> [] \<and>
   JStr (trim (el_value (ctl ''allergyInput'' '' nuts '' 3))) \<in> set [JStr ''nuts''] \<and>
   distinct [JStr ''nuts''] \<and>
   fst (addAllergyFromInput env0 (typed_allergy '' nuts '' one_allergy)) = Completed \<and>
   map_of (data (snd (addAllergyFromInput env0 (typed_allergy '' nuts '' one_allergy))))
     ''allergies'' = Some (JArr [JStr ''nuts'']) \<and>
   polite (snd (addAllergyFromInput env0 (typed_allergy '' nuts '' one_allergy)))
     = polite (typed_allergy '' nuts '' one_allergy) @ [''Allergy already added.''] \<and>
   length (filter (\<lambda>x. x = JStr (trim (el_value (ctl ''allergyInput'' '' nuts '' 3))))
             [JStr ''nuts'']) = 1 \<and>
   map_of (data (typed_allergy ''Nuts'' one_allergy)) ''allergies'' = Some (JArr [JStr ''nuts'']) \<and>
   getElementById (controls (typed_allergy ''Nuts'' one_allergy)) ''allergyInput''
     = Some (ctl ''allergyInput'' ''Nuts'' 3) \<and>
   trim (el_value (ctl ''allergyInput'' ''Nuts'' 3)) \<noteq> [] \<and>
   JStr (trim (el_value (ctl ''allergyInput'' ''Nuts'' 3))) \<notin> set [JStr ''nuts''] \<and>
   map_of (data (snd (addAllergyFromInput env0 (typed_allergy ''Nuts'' one_allergy))))
     ''allergies'' = Some (JArr [JStr ''nuts'', JStr ''Nuts''])"
proof -
  let ?a = "typed_allergy '' nuts '' one_allergy" and ?b = "typed_allergy ''Nuts'' one_allergy"
  let ?i = "ctl ''allergyInput'' '' nuts '' 3" and ?j = "ctl ''allergyInput'' ''Nuts'' 3"
  have al: "map_of (data ?a) ''allergies'' = Some (JArr [JStr ''nuts''])" by code_simp
  have inp: "getElementById (controls ?a) ''allergyInput'' = Some ?i" by code_simp
  have val: "trim (el_value ?i) \<noteq> []" by code_simp
  have tv: "trim (el_value ?i) = ''nuts''" by code_simp
  have mem: "JStr (trim (el_value ?i)) \<in> set [JStr ''nuts'']" by (simp add: tv)
  have d: "distinct [JStr ''nuts'']" by simp
  have lr: "has_el env0 ''live-region-polite''" by (simp add: env0_def)
  have al2: "map_of (data ?b) ''allergies'' = Some (JArr [JStr ''nuts''])" by code_simp
  have inp2: "getElementById (controls ?b) ''allergyInput'' = Some ?j" by code_simp
  have val2: "trim (el_value ?j) \<noteq> []" by code_simp
  have tv2: "trim (el_value ?j) = ''Nuts''" by code_simp
  have nmem: "JStr (trim (el_value ?j)) \<notin> set [JStr ''nuts'']" by (simp add: tv2)
  note t1 = C9_duplicate_allergy_rejected [OF al inp val, of env0 0]
  note t2 = C9_duplicate_allergy_rejected [OF al2 inp2 val2, of env0 0]
  from t1 mem d have r1:
    "fst (addAllergyFromInput env0 ?a) = Completed"
    "data (snd (addAllergyFromInput env0 ?a)) = data ?a"
    "polite (snd (addAllergyFromInput env0 ?a))
       = polite ?a @ (if has_el env0 ''live-region-polite'' then [''Allergy already added.'']
                      else [])"
    "length (filter (\<lambda>x. x = JStr (trim (el_value ?i))) [JStr ''nuts'']) = 1"
    by blast+
  from r1(2) al have r1d: "map_of (data (snd (addAllergyFromInput env0 ?a))) ''allergies''
      = Some (JArr [JStr ''nuts''])" by simp
  from r1(3) lr have r1p: "polite (snd (addAllergyFromInput env0 ?a))
       = polite ?a @ [''Allergy already added.'']" by simp
  from t2 nmem have "map_of (data (snd (addAllergyFromInput env0 ?b))) ''allergies''
      = Some (JArr ([JStr ''nuts''] @ [JStr (trim (el_value ?j))]))" by blast
  then have r2: "map_of (data (snd (addAllergyFromInput env0 ?b))) ''allergies''
      = Some (JArr [JStr ''nuts'', JStr ''Nuts''])" by (simp add: tv2)
  from al inp val mem d r1(1) r1d r1p r1(4) al2 inp2 val2 nmem r2 show ?thesis by blast
qed

text \<open>
  Claim C9 as stated fails: the restore takes the stored array as it is, so the entry
  \<open>{"data": {"allergies": ["nuts", "nuts"]}}\<close> leaves \<open>nuts\<close> twice in the array, and adding
  \<open>nuts\<close> then leaves it there twice.
\<close>

theorem C9_restored_duplicates_counterexample:
  "fst (restoreFromStorage env0 (initial form_ok rec_dup_allergies False)) = None \<and>
   map_of (data (snd (restoreFromStorage env0 (initial form_ok rec_dup_allergies False))))
     ''allergies'' = Some (JArr [JStr ''nuts'', JStr ''nuts'']) \<and>
   \<not> distinct [JStr ''nuts'', JStr ''nuts''] \<and>
   fst (addAllergyFromInput env0
          (typed_allergy ''nuts''
             (snd (restoreFromStorage env0 (initial form_ok rec_dup_allergies False)))))
     = Completed \<and>
   map_of (data (snd (addAllergyFromInput env0
          (typed_allergy ''nuts''
             (snd (restoreFromStorage env0 (initial form_ok rec_dup_allergies False)))))))
     ''allergies'' = Some (JArr [JStr ''nuts'', JStr ''nuts''])"
  by code_simp

end
